theory Spec2Isabelle
  imports Complex_Main
begin

section \<open>The Order entity\<close>

text \<open>
  \<^verbatim>\<open>OrderService.ts\<close> imports \<^verbatim>\<open>Order\<close>, \<^verbatim>\<open>OrderData\<close> and \<^verbatim>\<open>OrderJSON\<close> from
  \<^verbatim>\<open>@/models/Order\<close>. The type of \<^verbatim>\<open>status\<close> is read off \<^verbatim>\<open>getOrdersByStatus\<close>
  (\<^verbatim>\<open>"pending" | "picked" | "expired"\<close>); \<^verbatim>\<open>price\<close> is a JavaScript number, a value of
  the type \<open>'n\<close>, of which nothing is assumed; the remaining fields are an opaque
  payload of type \<open>'p\<close>.
\<close>

datatype OrderStatus = Pending | Picked | Expired

record ('n, 'p) OrderData =
  data_id :: string
  data_price :: 'n
  data_payload :: 'p

record ('n, 'p) Order =
  order_id :: string
  status :: OrderStatus
  price :: 'n
  payload :: 'p

record ('n, 'p) OrderJSON =
  json_id :: string
  json_status :: OrderStatus
  json_price :: 'n
  json_payload :: 'p

text \<open>
  Modelled from the spec: the constructor of \<^verbatim>\<open>Order\<close> (section 4.1, \<^verbatim>\<open>construct(data)\<close>):
  builds the order from the caller's fields, assigns status pending; price and id are
  taken as given, nothing is validated.
\<close>

definition new_Order :: "('n, 'p) OrderData \<Rightarrow> ('n, 'p) Order" where
  "new_Order d =
     \<lparr>order_id = data_id d, status = Pending, price = data_price d, payload = data_payload d\<rparr>"

text \<open>
  Modelled from the spec: \<^verbatim>\<open>Order.isPending\<close> and \<^verbatim>\<open>Order.isPicked\<close> (section 4.1):
  pure predicates on the current status.
\<close>

definition isPending :: "('n, 'p) Order \<Rightarrow> bool" where
  "isPending ord = (status ord = Pending)"

definition isPicked :: "('n, 'p) Order \<Rightarrow> bool" where
  "isPicked ord = (status ord = Picked)"

text \<open>
  Modelled from the spec: \<^verbatim>\<open>Order.markAsPicked\<close> and \<^verbatim>\<open>Order.markAsExpired\<close>
  (section 4.1): set the status only if the current status is pending, otherwise do
  nothing and signal nothing.
\<close>

definition markAsPicked :: "('n, 'p) Order \<Rightarrow> ('n, 'p) Order" where
  "markAsPicked ord = (if status ord = Pending then ord\<lparr>status := Picked\<rparr> else ord)"

definition markAsExpired :: "('n, 'p) Order \<Rightarrow> ('n, 'p) Order" where
  "markAsExpired ord = (if status ord = Pending then ord\<lparr>status := Expired\<rparr> else ord)"

text \<open>
  Modelled from the spec: \<^verbatim>\<open>Order.toJSON\<close> and \<^verbatim>\<open>Order.fromJSON\<close> (sections 4.1 and 6):
  the snapshot is a plain structure holding id, status, price and the payload fields.
\<close>

definition toJSON :: "('n, 'p) Order \<Rightarrow> ('n, 'p) OrderJSON" where
  "toJSON ord =
     \<lparr>json_id = order_id ord, json_status = status ord, json_price = price ord,
      json_payload = payload ord\<rparr>"

definition fromJSON :: "('n, 'p) OrderJSON \<Rightarrow> ('n, 'p) Order" where
  "fromJSON j =
     \<lparr>order_id = json_id j, status = json_status j, price = json_price j,
      payload = json_payload j\<rparr>"


section \<open>The platform: object heap, localStorage, JSON, console\<close>

text \<open>
  \<^verbatim>\<open>Order\<close> instances are mutable objects that the service shares with its callers
  (\<^verbatim>\<open>createOrder\<close>, \<^verbatim>\<open>getOrderById\<close> and the arrays of the queries hand out the very
  objects held in \<^verbatim>\<open>this.orders\<close>), so they live in a heap and are named by references.

  Arrays are objects with an identity as well. \<open>ordersArray s\<close> is the identity of the
  array \<^verbatim>\<open>this.orders\<close> references at the moment and \<open>orders s\<close> are its elements; every
  other array (the one \<^verbatim>\<open>getAllOrders\<close> builds for its caller, and the arrays
  \<^verbatim>\<open>this.orders\<close> referenced before an assignment) is kept in \<open>arrays s\<close> under its
  identity. \<^verbatim>\<open>push\<close> and \<^verbatim>\<open>splice\<close> on \<^verbatim>\<open>this.orders\<close> change \<open>orders s\<close> in place; an
  assignment to \<^verbatim>\<open>this.orders\<close> makes another array the current one. The filters
  (\<^verbatim>\<open>getOrdersByStatus\<close> and its two siblings) return the elements of the array they
  build.

  A string kept in \<^verbatim>\<open>localStorage\<close> is represented by what loading makes of it:
  \<open>OrdersText js\<close> is the text \<^verbatim>\<open>JSON.stringify\<close> writes for the snapshots \<open>js\<close> and
  \<^verbatim>\<open>JSON.parse\<close> reads back as \<open>js\<close>; \<open>OtherText t\<close> is any other string \<open>t\<close>, on which
  \<^verbatim>\<open>JSON.parse(stored)\<close> throws or yields a value without \<^verbatim>\<open>map\<close>. JSON arrays whose
  elements are not \<^verbatim>\<open>OrderJSON\<close> values are outside the model, as they are outside the
  type annotation \<^verbatim>\<open>OrderJSON[]\<close> of the source.
\<close>

type_synonym ref = nat

datatype ('n, 'p) stored = OrdersText "('n, 'p) OrderJSON list" | OtherText string

datatype exn = LoadError | QuotaExceededError

record ('n, 'p) state =
  heap :: "ref \<rightharpoonup> ('n, 'p) Order"
  nextRef :: ref
  arrays :: "ref \<rightharpoonup> ref list"
  nextArray :: ref
  ordersArray :: ref
  orders :: "ref list"
  currentUserPhone :: string
  localStorage :: "string \<rightharpoonup> ('n, 'p) stored"
  quotaExceeded :: bool
  console :: "string list"

text \<open>\<^verbatim>\<open>new\<close>: a fresh object.\<close>

definition alloc :: "('n, 'p) Order \<Rightarrow> ('n, 'p) state \<Rightarrow> ref \<times> ('n, 'p) state" where
  "alloc ord s =
     (nextRef s, s\<lparr>heap := (heap s)(nextRef s \<mapsto> ord), nextRef := Suc (nextRef s)\<rparr>)"

text \<open>\<^verbatim>\<open>xs.map(x => new ...)\<close>: one fresh object per element, left to right.\<close>

fun alloc_all :: "('n, 'p) Order list \<Rightarrow> ('n, 'p) state \<Rightarrow> ref list \<times> ('n, 'p) state" where
  "alloc_all [] s = ([], s)"
| "alloc_all (ord # ords) s =
     (case alloc ord s of (r, s1) \<Rightarrow>
        (case alloc_all ords s1 of (rs, s2) \<Rightarrow> (r # rs, s2)))"

text \<open>
  Reading the object behind a reference. The references the service holds are always
  allocated (\<open>refs_allocated\<close> below, kept by every call), as JavaScript guarantees.
\<close>

definition deref :: "('n, 'p) state \<Rightarrow> ref \<Rightarrow> ('n, 'p) Order" where
  "deref s r = the (heap s r)"

text \<open>A method call \<^verbatim>\<open>order.m()\<close> that mutates the object in place.\<close>

definition call :: "(('n, 'p) Order \<Rightarrow> ('n, 'p) Order) \<Rightarrow> ref \<Rightarrow> ('n, 'p) state \<Rightarrow> ('n, 'p) state" where
  "call m r s = s\<lparr>heap := (heap s)(r \<mapsto> m (deref s r))\<rparr>"

text \<open>An array literal, a spread or \<^verbatim>\<open>map\<close>: a fresh array with the given elements.\<close>

definition new_array :: "ref list \<Rightarrow> ('n, 'p) state \<Rightarrow> ref \<times> ('n, 'p) state" where
  "new_array xs s =
     (nextArray s, s\<lparr>arrays := (arrays s)(nextArray s \<mapsto> xs), nextArray := Suc (nextArray s)\<rparr>)"

text \<open>The elements of the array with identity \<open>a\<close>.\<close>

definition elems :: "('n, 'p) state \<Rightarrow> ref \<Rightarrow> ref list" where
  "elems s a = (if a = ordersArray s then orders s else the (arrays s a))"

text \<open>
  \<^verbatim>\<open>this.orders = e\<close> where \<^verbatim>\<open>e\<close> builds a fresh array with elements \<open>xs\<close>: the array
  referenced so far keeps its elements under its identity, the fresh one becomes the
  current array.
\<close>

definition assign_orders :: "ref list \<Rightarrow> ('n, 'p) state \<Rightarrow> ('n, 'p) state" where
  "assign_orders xs s =
     s\<lparr>arrays := (arrays s)(ordersArray s \<mapsto> orders s),
       ordersArray := nextArray s, nextArray := Suc (nextArray s), orders := xs\<rparr>"

text \<open>
  A caller mutating the array with identity \<open>a\<close> in place (\<^verbatim>\<open>push\<close>, \<^verbatim>\<open>pop\<close>, \<^verbatim>\<open>splice\<close>,
  \<^verbatim>\<open>sort\<close>, an assignment to an index or to \<^verbatim>\<open>length\<close>): \<open>f\<close> is what the mutation makes
  of the elements. Were \<open>a\<close> the array of the service, its collection would change.
\<close>

definition array_write :: "(ref list \<Rightarrow> ref list) \<Rightarrow> ref \<Rightarrow> ('n, 'p) state \<Rightarrow> ('n, 'p) state" where
  "array_write f a s =
     (if a = ordersArray s then s\<lparr>orders := f (orders s)\<rparr>
      else s\<lparr>arrays := (arrays s)(a \<mapsto> f (the (arrays s a)))\<rparr>)"

text \<open>A string in a condition: the empty string is falsy.\<close>

fun truthy :: "('n, 'p) stored \<Rightarrow> bool" where
  "truthy (OrdersText js) = True"
| "truthy (OtherText t) = (t \<noteq> [])"

text \<open>
  \<^verbatim>\<open>localStorage\<close>: \<^verbatim>\<open>getItem\<close> yields \<^verbatim>\<open>null\<close> for a key without entry; \<^verbatim>\<open>setItem\<close> throws
  when the storage refuses the write, which is a condition of the environment, the
  field \<open>quotaExceeded\<close>.
\<close>

definition getItem :: "string \<Rightarrow> ('n, 'p) state \<Rightarrow> ('n, 'p) stored option" where
  "getItem k s = localStorage s k"

definition setItem :: "string \<Rightarrow> ('n, 'p) stored \<Rightarrow> ('n, 'p) state \<Rightarrow> exn + ('n, 'p) state" where
  "setItem k v s =
     (if quotaExceeded s then Inl QuotaExceededError
      else Inr (s\<lparr>localStorage := (localStorage s)(k \<mapsto> v)\<rparr>))"

definition removeItem :: "string \<Rightarrow> ('n, 'p) state \<Rightarrow> ('n, 'p) state" where
  "removeItem k s = s\<lparr>localStorage := (localStorage s)(k := None)\<rparr>"

definition JSON_stringify :: "('n, 'p) OrderJSON list \<Rightarrow> ('n, 'p) stored" where
  "JSON_stringify js = OrdersText js"

text \<open>
  \<^verbatim>\<open>JSON.parse(stored)\<close> followed by \<^verbatim>\<open>.map\<close> on the result: on any text that is not
  the JSON of an order array one of the two throws (\<^verbatim>\<open>SyntaxError\<close> or \<^verbatim>\<open>TypeError\<close>,
  here the one error \<open>LoadError\<close>).
\<close>

fun JSON_parse :: "('n, 'p) stored \<Rightarrow> exn + ('n, 'p) OrderJSON list" where
  "JSON_parse (OrdersText js) = Inr js"
| "JSON_parse (OtherText t) = Inl LoadError"

text \<open>\<^verbatim>\<open>console.error(msg, error)\<close>: the message is recorded, the error object is not.\<close>

definition console_error :: "string \<Rightarrow> ('n, 'p) state \<Rightarrow> ('n, 'p) state" where
  "console_error msg s = s\<lparr>console := console s @ [msg]\<rparr>"

text \<open>\<^verbatim>\<open>Array.prototype.findIndex\<close>: the first index whose element passes, or -1.\<close>

fun findIndex :: "('a \<Rightarrow> bool) \<Rightarrow> 'a list \<Rightarrow> int" where
  "findIndex P [] = - 1"
| "findIndex P (x # xs) =
     (if P x then 0 else (if findIndex P xs = - 1 then - 1 else findIndex P xs + 1))"

text \<open>
  \<^verbatim>\<open>Array.prototype.splice(start, deleteCount)\<close> without inserted items: a negative
  start counts from the end, and the start is clamped to the array.
\<close>

definition splice :: "int \<Rightarrow> nat \<Rightarrow> 'a list \<Rightarrow> 'a list" where
  "splice start deleteCount xs =
     (let n = int (length xs);
          st = (if start < 0 then max (n + start) 0 else min start n)
      in take (nat st) xs @ drop (nat st + deleteCount) xs)"


section \<open>OrderService\<close>

text \<open>
  The fields \<open>orders\<close> and \<open>currentUserPhone\<close> of the state are those of the class. Each
  method takes the state and returns the new one, with its result if it has one. A
  \<^verbatim>\<open>try\<close> block is the \<open>case\<close> on the sum its body returns, the \<open>Inl\<close> branch being the
  \<^verbatim>\<open>catch\<close>; no method has an error among its results, since none lets one escape.
  The constructor reads the user from the entry \<^verbatim>\<open>goodbite_user\<close> and then loads as
  \<^verbatim>\<open>switchUser\<close> does; the states below take the user as given.
\<close>

definition STORAGE_KEY_PREFIX :: string where
  "STORAGE_KEY_PREFIX = ''goodbite_orders_''"

definition getStorageKey :: "('n, 'p) state \<Rightarrow> string" where
  "getStorageKey s = STORAGE_KEY_PREFIX @ currentUserPhone s"

definition loadOrders :: "('n, 'p) state \<Rightarrow> ('n, 'p) state" where
  "loadOrders s =
     (if currentUserPhone s = [] then assign_orders [] s
      else
        (case getItem (getStorageKey s) s of
           None \<Rightarrow> assign_orders [] s
         | Some stored \<Rightarrow>
             if truthy stored then
               (case JSON_parse stored of
                  Inl e \<Rightarrow> assign_orders [] (console_error ''Error loading orders:'' s)
                | Inr ordersJSON \<Rightarrow>
                    (case alloc_all (map fromJSON ordersJSON) s of
                       (rs, s1) \<Rightarrow> assign_orders rs s1))
             else assign_orders [] s))"

definition saveOrders :: "('n, 'p) state \<Rightarrow> ('n, 'p) state" where
  "saveOrders s =
     (if currentUserPhone s = [] then
        console_error ''No user logged in, cannot save orders'' s
      else
        (let ordersJSON = map (\<lambda>r. toJSON (deref s r)) (orders s) in
         case setItem (getStorageKey s) (JSON_stringify ordersJSON) s of
           Inl e \<Rightarrow> console_error ''Error saving orders:'' s
         | Inr s1 \<Rightarrow> s1))"

definition switchUser :: "string \<Rightarrow> ('n, 'p) state \<Rightarrow> ('n, 'p) state" where
  "switchUser userPhone s = loadOrders (s\<lparr>currentUserPhone := userPhone\<rparr>)"

definition clearUserSession :: "('n, 'p) state \<Rightarrow> ('n, 'p) state" where
  "clearUserSession s = assign_orders [] (s\<lparr>currentUserPhone := []\<rparr>)"

definition createOrder :: "('n, 'p) OrderData \<Rightarrow> ('n, 'p) state \<Rightarrow> ref \<times> ('n, 'p) state" where
  "createOrder orderData s =
     (case alloc (new_Order orderData) s of
        (newOrder, s1) \<Rightarrow> (newOrder, saveOrders (s1\<lparr>orders := orders s1 @ [newOrder]\<rparr>)))"

definition getOrderById :: "string \<Rightarrow> ('n, 'p) state \<Rightarrow> ref option" where
  "getOrderById oid s = find (\<lambda>r. order_id (deref s r) = oid) (orders s)"

text \<open>
  \<^verbatim>\<open>[...this.orders]\<close>: a fresh array with the same object references; its identity is
  the result.
\<close>

definition getAllOrders :: "('n, 'p) state \<Rightarrow> ref \<times> ('n, 'p) state" where
  "getAllOrders s = new_array (orders s) s"

definition refreshOrders :: "('n, 'p) state \<Rightarrow> ('n, 'p) state" where
  "refreshOrders s = loadOrders s"

definition getOrdersByStatus :: "OrderStatus \<Rightarrow> ('n, 'p) state \<Rightarrow> ref list" where
  "getOrdersByStatus st s = filter (\<lambda>r. status (deref s r) = st) (orders s)"

definition getPendingOrders :: "('n, 'p) state \<Rightarrow> ref list" where
  "getPendingOrders s = filter (\<lambda>r. isPending (deref s r)) (orders s)"

definition getPickedOrders :: "('n, 'p) state \<Rightarrow> ref list" where
  "getPickedOrders s = filter (\<lambda>r. isPicked (deref s r)) (orders s)"

definition markOrderAsPicked :: "string \<Rightarrow> ('n, 'p) state \<Rightarrow> bool \<times> ('n, 'p) state" where
  "markOrderAsPicked orderId s =
     (case getOrderById orderId s of
        None \<Rightarrow> (False, s)
      | Some r \<Rightarrow>
          if isPending (deref s r) then (True, saveOrders (call markAsPicked r s))
          else (False, s))"

definition markOrderAsExpired :: "string \<Rightarrow> ('n, 'p) state \<Rightarrow> bool \<times> ('n, 'p) state" where
  "markOrderAsExpired orderId s =
     (case getOrderById orderId s of
        None \<Rightarrow> (False, s)
      | Some r \<Rightarrow>
          if isPending (deref s r) then (True, saveOrders (call markAsExpired r s))
          else (False, s))"

definition deleteOrder :: "string \<Rightarrow> ('n, 'p) state \<Rightarrow> bool \<times> ('n, 'p) state" where
  "deleteOrder orderId s =
     (let index = findIndex (\<lambda>r. order_id (deref s r) = orderId) (orders s) in
      if index \<noteq> - 1 then (True, saveOrders (s\<lparr>orders := splice index 1 (orders s)\<rparr>))
      else (False, s))"

definition getTotalOrdersCount :: "('n, 'p) state \<Rightarrow> nat" where
  "getTotalOrdersCount s = length (orders s)"

text \<open>
  \<^verbatim>\<open>reduce((total, order) => total + order.price, 0)\<close>. The addition of JavaScript numbers
  (binary64: it rounds, overflows to an infinity and propagates NaN) and the number 0
  are the parameters \<open>add\<close> and \<open>zero\<close>; nothing is assumed of them.
\<close>

definition getTotalRevenue :: "('n \<Rightarrow> 'n \<Rightarrow> 'n) \<Rightarrow> 'n \<Rightarrow> ('n, 'p) state \<Rightarrow> 'n" where
  "getTotalRevenue add zero s =
     foldl (\<lambda>total r. add total (price (deref s r))) zero (orders s)"

definition orderExists :: "string \<Rightarrow> ('n, 'p) state \<Rightarrow> bool" where
  "orderExists orderId s = list_ex (\<lambda>r. order_id (deref s r) = orderId) (orders s)"

definition clearAllOrders :: "('n, 'p) state \<Rightarrow> ('n, 'p) state" where
  "clearAllOrders s =
     (let s1 = assign_orders [] s in
      if currentUserPhone s1 \<noteq> [] then removeItem (getStorageKey s1) s1 else s1)"

section \<open>Sequences of calls, observations and invariants\<close>

text \<open>The calls a client can make while one user stays bound (results dropped).\<close>

datatype ('n, 'p) op =
    Create "('n, 'p) OrderData"
  | MarkPicked string
  | MarkExpired string
  | Delete string
  | ClearAll
  | Refresh

fun apply_op :: "('n, 'p) op \<Rightarrow> ('n, 'p) state \<Rightarrow> ('n, 'p) state" where
  "apply_op (Create d) s = snd (createOrder d s)"
| "apply_op (MarkPicked oid) s = snd (markOrderAsPicked oid s)"
| "apply_op (MarkExpired oid) s = snd (markOrderAsExpired oid s)"
| "apply_op (Delete oid) s = snd (deleteOrder oid s)"
| "apply_op ClearAll s = clearAllOrders s"
| "apply_op Refresh s = refreshOrders s"

fun run :: "('n, 'p) op list \<Rightarrow> ('n, 'p) state \<Rightarrow> ('n, 'p) state" where
  "run [] s = s"
| "run (x # xs) s = run xs (apply_op x s)"

text \<open>What a client reads off the result of \<^verbatim>\<open>getAllOrders()\<close>: the orders, in order.\<close>

definition listed :: "('n, 'p) state \<Rightarrow> ('n, 'p) Order list" where
  "listed s = (case getAllOrders s of (a, s1) \<Rightarrow> map (deref s1) (elems s1 a))"

text \<open>The ids of the collection, in order, and the invariant of the data model.\<close>

definition ids :: "('n, 'p) state \<Rightarrow> string list" where
  "ids s = map (\<lambda>r. order_id (deref s r)) (orders s)"

definition distinct_ids :: "('n, 'p) state \<Rightarrow> bool" where
  "distinct_ids s = distinct (ids s)"

text \<open>
  The left-to-right sum of a list of numbers, starting from \<open>zero\<close>: the sum of the
  specification, in the arithmetic of the program.
\<close>

fun sum_from :: "('n \<Rightarrow> 'n \<Rightarrow> 'n) \<Rightarrow> 'n \<Rightarrow> 'n list \<Rightarrow> 'n" where
  "sum_from add acc [] = acc"
| "sum_from add acc (x # xs) = sum_from add (add acc x) xs"

text \<open>The array of the service was allocated earlier: a fresh array is another one.\<close>

definition arrays_allocated :: "('n, 'p) state \<Rightarrow> bool" where
  "arrays_allocated s = (ordersArray s < nextArray s)"

text \<open>
  Every reference held by the service names an object allocated earlier; \<^verbatim>\<open>new\<close>
  therefore never returns one of them.
\<close>

definition refs_allocated :: "('n, 'p) state \<Rightarrow> bool" where
  "refs_allocated s = list_all (\<lambda>r. r < nextRef s \<and> heap s r \<noteq> None) (orders s)"

text \<open>
  The service as its constructor leaves it when \<^verbatim>\<open>localStorage\<close> is empty: no user,
  no orders; the array of the field initialiser (0) has been replaced by the one
  \<^verbatim>\<open>loadOrders\<close> assigns (1). The examples take real numbers for \<open>'n\<close>, with prices
  that binary64 represents exactly.
\<close>

definition empty_store :: "(real, string) state" where
  "empty_store =
     \<lparr>heap = Map.empty, nextRef = 0, arrays = [0 \<mapsto> []], nextArray = 2, ordersArray = 1,
      orders = [], currentUserPhone = [],
      localStorage = Map.empty, quotaExceeded = False, console = []\<rparr>"

definition nasi :: "(real, string) OrderData" where
  "nasi = \<lparr>data_id = ''A1'', data_price = 12.5, data_payload = ''nasi goreng''\<rparr>"

definition roti :: "(real, string) OrderData" where
  "roti = \<lparr>data_id = ''B2'', data_price = 4, data_payload = ''roti bakar''\<rparr>"

text \<open>A store whose slot for one user holds text that is not JSON.\<close>

definition garbled :: "(real, string) state" where
  "garbled =
     empty_store\<lparr>localStorage := [STORAGE_KEY_PREFIX @ ''+1555'' \<mapsto> OtherText ''[{oops'']\<rparr>"


text \<open>A store whose slot for one user holds two snapshots with the same id.\<close>

definition stored_twice :: "(real, string) state" where
  "stored_twice =
     empty_store\<lparr>localStorage :=
       [STORAGE_KEY_PREFIX @ ''+1555'' \<mapsto>
          JSON_stringify [toJSON (new_Order nasi), toJSON (new_Order nasi)]]\<rparr>"

text \<open>Stores reached through the public calls, used as concrete inputs below.\<close>

definition one_order :: "(real, string) state" where
  "one_order = run [Create nasi] (switchUser ''+1555'' empty_store)"

definition same_id_twice :: "(real, string) state" where
  "same_id_twice = run [Create nasi, Create nasi] (switchUser ''+1555'' empty_store)"

definition picked_then_pending :: "(real, string) state" where
  "picked_then_pending =
     run [Create nasi, MarkPicked ''A1'', Create nasi] (switchUser ''+1555'' empty_store)"


section \<open>Allocation, lookup and the load/save bridge\<close>

lemma assign_orders_fields [simp]:
  "orders (assign_orders xs s) = xs"
  "heap (assign_orders xs s) = heap s"
  "nextRef (assign_orders xs s) = nextRef s"
  "currentUserPhone (assign_orders xs s) = currentUserPhone s"
  "localStorage (assign_orders xs s) = localStorage s"
  "quotaExceeded (assign_orders xs s) = quotaExceeded s"
  "console (assign_orders xs s) = console s"
  "ordersArray (assign_orders xs s) = nextArray s"
  "nextArray (assign_orders xs s) = Suc (nextArray s)"
  by (simp_all add: assign_orders_def)

lemma deref_assign_orders [simp]: "deref (assign_orders xs s) = deref s"
  by (rule ext) (simp add: deref_def)

lemma getAllOrders_fields:
  "fst (getAllOrders s) = nextArray s"
  "orders (snd (getAllOrders s)) = orders s"
  "heap (snd (getAllOrders s)) = heap s"
  "nextRef (snd (getAllOrders s)) = nextRef s"
  "currentUserPhone (snd (getAllOrders s)) = currentUserPhone s"
  "localStorage (snd (getAllOrders s)) = localStorage s"
  "quotaExceeded (snd (getAllOrders s)) = quotaExceeded s"
  "console (snd (getAllOrders s)) = console s"
  "ordersArray (snd (getAllOrders s)) = ordersArray s"
  "nextArray (snd (getAllOrders s)) = Suc (nextArray s)"
  "arrays (snd (getAllOrders s)) = (arrays s)(nextArray s \<mapsto> orders s)"
  by (simp_all add: getAllOrders_def new_array_def)

lemma elems_getAllOrders: "elems (snd (getAllOrders s)) (fst (getAllOrders s)) = orders s"
  by (simp add: elems_def getAllOrders_fields)

lemma deref_getAllOrders [simp]: "deref (snd (getAllOrders s)) = deref s"
  by (rule ext) (simp add: deref_def getAllOrders_fields)

lemma listed_orders: "listed s = map (deref s) (orders s)"
  using elems_getAllOrders [of s] by (simp add: listed_def case_prod_beta)

lemma alloc_all_Cons:
  "alloc_all (a # os) s =
     (nextRef s # fst (alloc_all os (snd (alloc a s))), snd (alloc_all os (snd (alloc a s))))"
  by (simp add: alloc_def split: prod.splits)

lemma alloc_fields:
  "orders (snd (alloc a s)) = orders s"
  "currentUserPhone (snd (alloc a s)) = currentUserPhone s"
  "localStorage (snd (alloc a s)) = localStorage s"
  "quotaExceeded (snd (alloc a s)) = quotaExceeded s"
  "console (snd (alloc a s)) = console s"
  "nextRef (snd (alloc a s)) = Suc (nextRef s)"
  "fst (alloc a s) = nextRef s"
  by (simp_all add: alloc_def)

declare alloc_all.simps(2) [simp del]

lemma alloc_all_orders: "orders (snd (alloc_all os s)) = orders s"
  by (induction os arbitrary: s) (simp_all add: alloc_all_Cons alloc_fields)

lemma alloc_all_user: "currentUserPhone (snd (alloc_all os s)) = currentUserPhone s"
  by (induction os arbitrary: s) (simp_all add: alloc_all_Cons alloc_fields)

lemma alloc_all_storage: "localStorage (snd (alloc_all os s)) = localStorage s"
  by (induction os arbitrary: s) (simp_all add: alloc_all_Cons alloc_fields)

lemma alloc_all_quota: "quotaExceeded (snd (alloc_all os s)) = quotaExceeded s"
  by (induction os arbitrary: s) (simp_all add: alloc_all_Cons alloc_fields)

lemma alloc_all_console: "console (snd (alloc_all os s)) = console s"
  by (induction os arbitrary: s) (simp_all add: alloc_all_Cons alloc_fields)

lemma alloc_all_nextRef: "nextRef (snd (alloc_all os s)) = nextRef s + length os"
  by (induction os arbitrary: s) (simp_all add: alloc_all_Cons alloc_fields)

lemma alloc_all_refs: "fst (alloc_all os s) = [nextRef s ..< nextRef s + length os]"
proof (induction os arbitrary: s)
  case Nil show ?case by simp
next
  case (Cons a os)
  have "fst (alloc_all (a # os) s) = nextRef s # [Suc (nextRef s) ..< Suc (nextRef s) + length os]"
    by (simp add: alloc_all_Cons Cons.IH alloc_fields)
  also have "\<dots> = [nextRef s ..< nextRef s + length (a # os)]"
    using upt_conv_Cons[of "nextRef s" "nextRef s + length (a # os)"] by simp
  finally show ?case .
qed

lemma alloc_all_old: "r < nextRef s \<Longrightarrow> heap (snd (alloc_all os s)) r = heap s r"
proof (induction os arbitrary: s)
  case Nil show ?case by simp
next
  case (Cons a os)
  have "heap (snd (alloc_all (a # os) s)) r = heap (snd (alloc_all os (snd (alloc a s)))) r"
    by (simp add: alloc_all_Cons)
  also have "\<dots> = heap (snd (alloc a s)) r"
    using Cons.prems by (intro Cons.IH) (simp add: alloc_def)
  also have "\<dots> = heap s r"
    using Cons.prems by (simp add: alloc_def)
  finally show ?case .
qed

lemma alloc_all_new: "map (deref (snd (alloc_all os s))) (fst (alloc_all os s)) = os"
proof (induction os arbitrary: s)
  case Nil show ?case by simp
next
  case (Cons a os)
  let ?s1 = "snd (alloc a s)"
  have "heap (snd (alloc_all os ?s1)) (nextRef s) = heap ?s1 (nextRef s)"
    by (rule alloc_all_old) (simp add: alloc_def)
  then have "deref (snd (alloc_all os ?s1)) (nextRef s) = a"
    by (simp add: deref_def alloc_def)
  then show ?case by (simp add: alloc_all_Cons Cons.IH)
qed

lemma findIndex_ge: "- 1 \<le> findIndex P xs"
  by (induction xs) auto

lemma findIndex_none: "findIndex P xs = - 1 \<longleftrightarrow> (\<forall>x\<in>set xs. \<not> P x)"
proof (induction xs)
  case Nil
  show ?case by simp
next
  case (Cons a xs)
  have "- 1 \<le> findIndex P xs" by (rule findIndex_ge)
  with Cons show ?case by auto
qed

lemma findIndex_first:
  "findIndex P xs \<noteq> - 1 \<Longrightarrow>
   \<exists>ys x zs. xs = ys @ x # zs \<and> P x \<and> (\<forall>y\<in>set ys. \<not> P y) \<and> findIndex P xs = int (length ys)"
proof (induction xs)
  case Nil then show ?case by simp
next
  case (Cons a xs)
  show ?case
  proof (cases "P a")
    case True
    then show ?thesis by (intro exI[of _ "[]"] exI[of _ a] exI[of _ xs]) simp
  next
    case False
    with Cons.prems have ne: "findIndex P xs \<noteq> - 1" by (auto split: if_splits)
    from Cons.IH[OF ne] obtain ys x zs where
      h: "xs = ys @ x # zs" "P x" "\<forall>y\<in>set ys. \<not> P y" "findIndex P xs = int (length ys)" by blast
    show ?thesis
      using h False ne by (intro exI[of _ "a # ys"] exI[of _ x] exI[of _ zs]) auto
  qed
qed

lemma splice_at: "splice (int (length ys)) 1 (ys @ x # zs) = ys @ zs"
  by (simp add: splice_def Let_def)

lemma find_first:
  "find P (ys @ x # zs) = Some x" if "P x" "\<forall>y\<in>set ys. \<not> P y"
  using that by (induction ys) auto

lemma loadOrders_user: "currentUserPhone (loadOrders s) = currentUserPhone s"
  by (simp add: loadOrders_def console_error_def getItem_def alloc_all_user case_prod_beta
        split: option.splits sum.splits)

lemma loadOrders_storage: "localStorage (loadOrders s) = localStorage s"
  by (simp add: loadOrders_def console_error_def getItem_def alloc_all_storage case_prod_beta
        split: option.splits sum.splits)

lemma loadOrders_quota: "quotaExceeded (loadOrders s) = quotaExceeded s"
  by (simp add: loadOrders_def console_error_def getItem_def alloc_all_quota case_prod_beta
        split: option.splits sum.splits)

lemma saveOrders_frame:
  "heap (saveOrders s) = heap s"
  "nextRef (saveOrders s) = nextRef s"
  "orders (saveOrders s) = orders s"
  "currentUserPhone (saveOrders s) = currentUserPhone s"
  "quotaExceeded (saveOrders s) = quotaExceeded s"
  by (simp_all add: saveOrders_def console_error_def setItem_def Let_def)

lemma saveOrders_other_key:
  "k \<noteq> getStorageKey s \<Longrightarrow> localStorage (saveOrders s) k = localStorage s k"
  by (simp add: saveOrders_def console_error_def setItem_def Let_def)

lemma deref_orders_upd [simp]: "deref (s\<lparr>orders := rs\<rparr>) = deref s"
  by (rule ext) (simp add: deref_def)

lemma listed_loadOrders:
  "listed (loadOrders s) =
     (if currentUserPhone s = [] then []
      else case localStorage s (getStorageKey s) of
             None \<Rightarrow> []
           | Some (OrdersText js) \<Rightarrow> map fromJSON js
           | Some (OtherText t) \<Rightarrow> [])"
  by (simp add: listed_orders loadOrders_def getItem_def console_error_def
        case_prod_beta alloc_all_new
        split: option.splits stored.splits)


section \<open>The Order entity: serialisation\<close>

text \<open>
  C8. For every order \<open>x\<close>, deserialising the serialisation of \<open>x\<close> gives back an order
  with the same id, status, price and payload, that is \<open>x\<close> itself.
\<close>

theorem fromJSON_toJSON:
  "fromJSON (toJSON x) = x
   \<and> order_id (fromJSON (toJSON x)) = order_id x
   \<and> status (fromJSON (toJSON x)) = status x
   \<and> price (fromJSON (toJSON x)) = price x
   \<and> payload (fromJSON (toJSON x)) = payload x"
  by (simp add: fromJSON_def toJSON_def)


section \<open>Queries\<close>

text \<open>
  C10. In every state \<^verbatim>\<open>getPendingOrders()\<close> returns the same sequence as
  \<^verbatim>\<open>getOrdersByStatus("pending")\<close>, and \<^verbatim>\<open>getPickedOrders()\<close> the same sequence as
  \<^verbatim>\<open>getOrdersByStatus("picked")\<close>.
\<close>

theorem status_queries_agree:
  "getPendingOrders s = getOrdersByStatus Pending s
   \<and> getPickedOrders s = getOrdersByStatus Picked s"
  by (simp add: getPendingOrders_def getPickedOrders_def getOrdersByStatus_def
      isPending_def isPicked_def)


section \<open>What each call leaves unchanged\<close>

lemma getStorageKey_inj:
  "getStorageKey s = getStorageKey t \<longleftrightarrow> currentUserPhone s = currentUserPhone t"
  by (simp add: getStorageKey_def)

lemma snd_createOrder:
  "snd (createOrder d s) =
     saveOrders ((snd (alloc (new_Order d) s))\<lparr>orders := orders s @ [nextRef s]\<rparr>)"
  by (simp add: createOrder_def alloc_def)

lemma fst_createOrder: "fst (createOrder d s) = nextRef s"
  by (simp add: createOrder_def alloc_def)

lemma markOrderAsPicked_cases:
  "markOrderAsPicked oid s = (False, s) \<or>
   (\<exists>r. markOrderAsPicked oid s = (True, saveOrders (call markAsPicked r s)))"
  by (auto simp: markOrderAsPicked_def split: option.splits)

lemma markOrderAsExpired_cases:
  "markOrderAsExpired oid s = (False, s) \<or>
   (\<exists>r. markOrderAsExpired oid s = (True, saveOrders (call markAsExpired r s)))"
  by (auto simp: markOrderAsExpired_def split: option.splits)

lemma deleteOrder_cases:
  "deleteOrder oid s = (False, s) \<or>
   (\<exists>rs. deleteOrder oid s = (True, saveOrders (s\<lparr>orders := rs\<rparr>)))"
  by (auto simp: deleteOrder_def Let_def)

lemma call_frame:
  "orders (call m r s) = orders s"
  "nextRef (call m r s) = nextRef s"
  "currentUserPhone (call m r s) = currentUserPhone s"
  "localStorage (call m r s) = localStorage s"
  "quotaExceeded (call m r s) = quotaExceeded s"
  "console (call m r s) = console s"
  by (simp_all add: call_def)

lemma getStorageKey_upd [simp]:
  "getStorageKey (s\<lparr>orders := rs\<rparr>) = getStorageKey s"
  "getStorageKey (call m r s) = getStorageKey s"
  "getStorageKey (snd (alloc a s)) = getStorageKey s"
  by (simp_all add: getStorageKey_def call_def alloc_def)

lemma apply_op_user: "currentUserPhone (apply_op x s) = currentUserPhone s"
proof (cases x)
  case (Create d)
  then show ?thesis by (simp add: snd_createOrder saveOrders_frame alloc_fields)
next
  case (MarkPicked oid)
  then show ?thesis
    using markOrderAsPicked_cases[of oid s] by (auto simp: saveOrders_frame call_frame)
next
  case (MarkExpired oid)
  then show ?thesis
    using markOrderAsExpired_cases[of oid s] by (auto simp: saveOrders_frame call_frame)
next
  case (Delete oid)
  then show ?thesis
    using deleteOrder_cases[of oid s] by (auto simp: saveOrders_frame)
next
  case ClearAll
  then show ?thesis by (simp add: clearAllOrders_def removeItem_def Let_def)
next
  case Refresh
  then show ?thesis by (simp add: refreshOrders_def loadOrders_user)
qed

lemma apply_op_other_key:
  assumes "k \<noteq> getStorageKey s"
  shows "localStorage (apply_op x s) k = localStorage s k"
proof (cases x)
  case (Create d)
  then show ?thesis using assms
    by (simp add: snd_createOrder saveOrders_other_key alloc_fields)
next
  case (MarkPicked oid)
  then show ?thesis
    using markOrderAsPicked_cases[of oid s] assms
    by (auto simp: saveOrders_other_key call_frame)
next
  case (MarkExpired oid)
  then show ?thesis
    using markOrderAsExpired_cases[of oid s] assms
    by (auto simp: saveOrders_other_key call_frame)
next
  case (Delete oid)
  then show ?thesis
    using deleteOrder_cases[of oid s] assms by (auto simp: saveOrders_other_key)
next
  case ClearAll
  then show ?thesis using assms
    by (simp add: clearAllOrders_def removeItem_def Let_def getStorageKey_def)
next
  case Refresh
  then show ?thesis by (simp add: refreshOrders_def loadOrders_storage)
qed

lemma run_user: "currentUserPhone (run ops s) = currentUserPhone s"
  by (induction ops arbitrary: s) (simp_all add: apply_op_user)

lemma run_other_key:
  "k \<noteq> getStorageKey s \<Longrightarrow> localStorage (run ops s) k = localStorage s k"
proof (induction ops arbitrary: s)
  case Nil
  show ?case by simp
next
  case (Cons x ops)
  have "getStorageKey (apply_op x s) = getStorageKey s"
    by (simp add: getStorageKey_def apply_op_user)
  with Cons show ?case by (simp add: apply_op_other_key)
qed

lemma listed_switchUser:
  "listed (switchUser u s) =
     (if u = [] then []
      else case localStorage s (STORAGE_KEY_PREFIX @ u) of
             None \<Rightarrow> []
           | Some (OrdersText js) \<Rightarrow> map fromJSON js
           | Some (OtherText t) \<Rightarrow> [])"
  by (simp add: switchUser_def listed_loadOrders getStorageKey_def)

lemma switchUser_frame:
  "currentUserPhone (switchUser u s) = u"
  "localStorage (switchUser u s) = localStorage s"
  by (simp_all add: switchUser_def loadOrders_user loadOrders_storage)


section \<open>Loading missing or malformed data\<close>

lemma loadOrders_missing:
  assumes "currentUserPhone s = [] \<or> localStorage s (getStorageKey s) = None
           \<or> localStorage s (getStorageKey s) = Some (OtherText [])"
  shows "orders (loadOrders s) = [] \<and> console (loadOrders s) = console s"
  using assms by (auto simp: loadOrders_def getItem_def)

lemma loadOrders_malformed:
  assumes "currentUserPhone s \<noteq> []" "localStorage s (getStorageKey s) = Some (OtherText t)" "t \<noteq> []"
  shows "orders (loadOrders s) = [] \<and> console (loadOrders s) = console s @ [''Error loading orders:'']"
  using assms by (simp add: loadOrders_def getItem_def console_error_def)

text \<open>
  C4 (as the claim states it, refuted). A user with no persisted entry is bound: the
  collection becomes empty, and nothing is logged.
\<close>

theorem load_missing_not_logged:
  "localStorage empty_store (STORAGE_KEY_PREFIX @ ''+1555'') = None
   \<and> orders (switchUser ''+1555'' empty_store) = []
   \<and> console (switchUser ''+1555'' empty_store) = console empty_store"
  by code_simp

text \<open>
  C4 (amended). When \<^verbatim>\<open>switchUser\<close> or \<^verbatim>\<open>refreshOrders\<close> finds no data for the user
  (no user, no entry, or an empty string), the collection becomes empty and nothing is
  logged; when it finds malformed data, the collection becomes empty and one error is
  logged. Both functions return a state in every case: nothing is thrown.
\<close>

theorem load_degrades:
  "((u = [] \<or> localStorage s (STORAGE_KEY_PREFIX @ u) = None
      \<or> localStorage s (STORAGE_KEY_PREFIX @ u) = Some (OtherText [])) \<longrightarrow>
      orders (switchUser u s) = [] \<and> console (switchUser u s) = console s)
   \<and> (u \<noteq> [] \<and> localStorage s (STORAGE_KEY_PREFIX @ u) = Some (OtherText t) \<and> t \<noteq> [] \<longrightarrow>
      orders (switchUser u s) = []
      \<and> console (switchUser u s) = console s @ [''Error loading orders:''])
   \<and> ((currentUserPhone s = [] \<or> localStorage s (getStorageKey s) = None
      \<or> localStorage s (getStorageKey s) = Some (OtherText [])) \<longrightarrow>
      orders (refreshOrders s) = [] \<and> console (refreshOrders s) = console s)
   \<and> (currentUserPhone s \<noteq> [] \<and> localStorage s (getStorageKey s) = Some (OtherText t) \<and> t \<noteq> [] \<longrightarrow>
      orders (refreshOrders s) = []
      \<and> console (refreshOrders s) = console s @ [''Error loading orders:''])"
proof -
  let ?b = "s\<lparr>currentUserPhone := u\<rparr>"
  have k: "getStorageKey ?b = STORAGE_KEY_PREFIX @ u" "localStorage ?b = localStorage s"
    "currentUserPhone ?b = u" "console ?b = console s"
    by (simp_all add: getStorageKey_def)
  have 1: "(u = [] \<or> localStorage s (STORAGE_KEY_PREFIX @ u) = None
      \<or> localStorage s (STORAGE_KEY_PREFIX @ u) = Some (OtherText [])) \<longrightarrow>
      orders (switchUser u s) = [] \<and> console (switchUser u s) = console s"
    using loadOrders_missing[of ?b] unfolding switchUser_def k by blast
  have 2: "u \<noteq> [] \<and> localStorage s (STORAGE_KEY_PREFIX @ u) = Some (OtherText t) \<and> t \<noteq> [] \<longrightarrow>
      orders (switchUser u s) = []
      \<and> console (switchUser u s) = console s @ [''Error loading orders:'']"
    using loadOrders_malformed[of ?b t] unfolding switchUser_def k by blast
  have 3: "(currentUserPhone s = [] \<or> localStorage s (getStorageKey s) = None
      \<or> localStorage s (getStorageKey s) = Some (OtherText [])) \<longrightarrow>
      orders (refreshOrders s) = [] \<and> console (refreshOrders s) = console s"
    using loadOrders_missing[of s] unfolding refreshOrders_def by blast
  have 4: "currentUserPhone s \<noteq> [] \<and> localStorage s (getStorageKey s) = Some (OtherText t) \<and> t \<noteq> [] \<longrightarrow>
      orders (refreshOrders s) = []
      \<and> console (refreshOrders s) = console s @ [''Error loading orders:'']"
    using loadOrders_malformed[of s t] unfolding refreshOrders_def by blast
  from 1 2 3 4 show ?thesis by blast
qed

theorem load_degrades_witness:
  "orders (switchUser ''+1555'' empty_store) = []
   \<and> console (switchUser ''+1555'' empty_store) = []
   \<and> orders (switchUser ''+1555'' garbled) = []
   \<and> console (switchUser ''+1555'' garbled) = [''Error loading orders:'']
   \<and> orders (refreshOrders empty_store) = []
   \<and> orders (refreshOrders (garbled\<lparr>currentUserPhone := ''+1555''\<rparr>)) = []"
  using load_degrades [of "''+1555''" empty_store "[]"]
    load_degrades [of "''+1555''" garbled "''[{oops''"]
    load_degrades [of "[]" "garbled\<lparr>currentUserPhone := ''+1555''\<rparr>" "''[{oops''"]
  by (simp add: empty_store_def garbled_def getStorageKey_def)


section \<open>Calls without a session\<close>

lemma saveOrders_no_user:
  "currentUserPhone s = [] \<Longrightarrow> saveOrders s = console_error ''No user logged in, cannot save orders'' s"
  by (simp add: saveOrders_def)

lemma saveOrders_no_user_storage:
  "currentUserPhone s = [] \<Longrightarrow> localStorage (saveOrders s) = localStorage s"
  by (simp add: saveOrders_def console_error_def)

lemma apply_op_no_user:
  assumes "currentUserPhone s = []"
  shows "localStorage (apply_op x s) = localStorage s"
proof (cases x)
  case (Create d)
  then show ?thesis using assms
    by (simp add: snd_createOrder saveOrders_no_user_storage alloc_fields)
next
  case (MarkPicked oid)
  then show ?thesis
    using markOrderAsPicked_cases[of oid s] assms
    by (auto simp: saveOrders_no_user_storage call_frame)
next
  case (MarkExpired oid)
  then show ?thesis
    using markOrderAsExpired_cases[of oid s] assms
    by (auto simp: saveOrders_no_user_storage call_frame)
next
  case (Delete oid)
  then show ?thesis
    using deleteOrder_cases[of oid s] assms by (auto simp: saveOrders_no_user_storage)
next
  case ClearAll
  then show ?thesis using assms by (simp add: clearAllOrders_def Let_def)
next
  case Refresh
  then show ?thesis by (simp add: refreshOrders_def loadOrders_storage)
qed

lemma deref_saveOrders [simp]: "deref (saveOrders s) = deref s"
  by (rule ext) (simp add: deref_def saveOrders_frame)

lemma createOrder_new:
  "deref (snd (createOrder d s)) (fst (createOrder d s)) = new_Order d"
  by (simp add: snd_createOrder fst_createOrder) (simp add: deref_def alloc_def)

lemma createOrder_orders:
  "orders (snd (createOrder d s)) = orders s @ [fst (createOrder d s)]"
  by (simp add: snd_createOrder fst_createOrder saveOrders_frame)

lemma refs_allocatedD: "refs_allocated s \<Longrightarrow> r \<in> set (orders s) \<Longrightarrow> r < nextRef s"
  by (simp add: refs_allocated_def list_all_iff)

lemma createOrder_old:
  assumes "r < nextRef s"
  shows "deref (snd (createOrder d s)) r = deref s r"
  using assms by (simp add: snd_createOrder) (simp add: deref_def alloc_def)

lemma createOrder_listed:
  assumes "refs_allocated s"
  shows "listed (snd (createOrder d s)) = listed s @ [new_Order d]"
proof -
  have "map (deref (snd (createOrder d s))) (orders s) = map (deref s) (orders s)"
    using assms by (intro map_cong refl createOrder_old) (rule refs_allocatedD)
  then show ?thesis
    by (simp add: listed_orders createOrder_orders createOrder_new)
qed

text \<open>
  C5. While no user is bound, the persist step of every mutating call only logs and
  leaves \<^verbatim>\<open>localStorage\<close> as it is, without raising; \<^verbatim>\<open>createOrder\<close> still appends the
  new order to the in-memory collection and returns it.
\<close>

theorem no_session_mutations:
  assumes "currentUserPhone s = []"
  shows "saveOrders s = console_error ''No user logged in, cannot save orders'' s
    \<and> localStorage (apply_op x s) = localStorage s
    \<and> orders (snd (createOrder d s)) = orders s @ [fst (createOrder d s)]
    \<and> deref (snd (createOrder d s)) (fst (createOrder d s)) = new_Order d
    \<and> (refs_allocated s \<longrightarrow> listed (snd (createOrder d s)) = listed s @ [new_Order d])"
  using assms
  by (simp add: saveOrders_no_user apply_op_no_user createOrder_orders createOrder_new
      createOrder_listed)

theorem no_session_mutations_witness:
  "currentUserPhone empty_store = [] \<and> refs_allocated empty_store
   \<and> localStorage (apply_op (Create nasi) empty_store) = localStorage empty_store
   \<and> listed (snd (createOrder nasi empty_store)) = [new_Order nasi]"
proof -
  have u: "currentUserPhone empty_store = []"
    by (simp add: empty_store_def)
  have a: "refs_allocated empty_store"
    by (simp add: refs_allocated_def empty_store_def)
  have e: "listed empty_store = []"
    by (simp add: listed_orders empty_store_def)
  from no_session_mutations [OF u, of "Create nasi" nasi] a e
  have "localStorage (apply_op (Create nasi) empty_store) = localStorage empty_store"
    and "listed (snd (createOrder nasi empty_store)) = [new_Order nasi]"
    by simp_all
  with u a show ?thesis by simp
qed

section \<open>Status transitions\<close>

lemma listed_saveOrders: "listed (saveOrders s) = listed s"
  by (simp add: listed_orders saveOrders_frame)

lemma saveOrders_persisted:
  assumes "currentUserPhone s \<noteq> []" "\<not> quotaExceeded s"
  shows "localStorage (saveOrders s) (getStorageKey s) = Some (JSON_stringify (map toJSON (listed s)))"
  using assms by (simp add: saveOrders_def setItem_def Let_def listed_orders comp_def)

lemma deref_call: "deref (call m r s) r' = (if r' = r then m (deref s r) else deref s r')"
  by (simp add: deref_def call_def)

lemma find_Some_split:
  "find P xs = Some x \<longleftrightarrow> (\<exists>ys zs. xs = ys @ x # zs \<and> P x \<and> (\<forall>y\<in>set ys. \<not> P y))"
proof
  assume "find P xs = Some x"
  then show "\<exists>ys zs. xs = ys @ x # zs \<and> P x \<and> (\<forall>y\<in>set ys. \<not> P y)"
  proof (induction xs)
    case Nil then show ?case by simp
  next
    case (Cons a xs)
    show ?case
    proof (cases "P a")
      case True
      with Cons.prems have "a = x" by simp
      with True show ?thesis by (intro exI[of _ "[]"] exI[of _ xs]) simp
    next
      case False
      with Cons obtain ys zs where "xs = ys @ x # zs" "P x" "\<forall>y\<in>set ys. \<not> P y" by auto
      with False show ?thesis by (intro exI[of _ "a # ys"] exI[of _ zs]) simp
    qed
  qed
next
  assume "\<exists>ys zs. xs = ys @ x # zs \<and> P x \<and> (\<forall>y\<in>set ys. \<not> P y)"
  then show "find P xs = Some x" by (auto simp: find_first)
qed

text \<open>With distinct ids, any order carrying the id is the one the lookup finds.\<close>

lemma distinct_ids_unique:
  assumes "distinct_ids s" "getOrderById oid s = Some r0"
    and "r \<in> set (orders s)" "order_id (deref s r) = oid"
  shows "r = r0"
proof -
  let ?f = "\<lambda>r. order_id (deref s r)"
  from assms(2) obtain ys zs where
    xs: "orders s = ys @ r0 # zs" and r0: "?f r0 = oid" and ys: "\<forall>y\<in>set ys. ?f y \<noteq> oid"
    unfolding getOrderById_def find_Some_split by blast
  from assms(1) have d: "distinct (map ?f ys @ ?f r0 # map ?f zs)"
    by (simp add: distinct_ids_def ids_def xs)
  have "r \<notin> set ys" using ys assms(4) by blast
  moreover have "r \<notin> set zs"
  proof
    assume "r \<in> set zs"
    then have "oid \<in> set (map ?f zs)" using assms(4) by force
    with d r0 show False by simp
  qed
  ultimately show ?thesis using assms(3) xs by simp
qed

lemma getOrderById_SomeD:
  "getOrderById oid s = Some r \<Longrightarrow> r \<in> set (orders s) \<and> order_id (deref s r) = oid"
  unfolding getOrderById_def find_Some_iff by (auto simp: set_conv_nth)

lemma getOrderById_None:
  "getOrderById oid s = None \<longleftrightarrow> (\<forall>r\<in>set (orders s). order_id (deref s r) \<noteq> oid)"
  by (auto simp: getOrderById_def find_None_iff)

lemma first_pending_iff:
  assumes "distinct_ids s"
  shows "(\<exists>r. getOrderById oid s = Some r \<and> status (deref s r) = Pending)
     \<longleftrightarrow> (\<exists>r\<in>set (orders s). order_id (deref s r) = oid \<and> status (deref s r) = Pending)"
proof
  assume "\<exists>r. getOrderById oid s = Some r \<and> status (deref s r) = Pending"
  then show "\<exists>r\<in>set (orders s). order_id (deref s r) = oid \<and> status (deref s r) = Pending"
    using getOrderById_SomeD by blast
next
  assume "\<exists>r\<in>set (orders s). order_id (deref s r) = oid \<and> status (deref s r) = Pending"
  then obtain r where r: "r \<in> set (orders s)" "order_id (deref s r) = oid"
    "status (deref s r) = Pending" by blast
  then obtain r0 where r0: "getOrderById oid s = Some r0"
    using getOrderById_None[of oid s] by (cases "getOrderById oid s") auto
  with assms r have "r = r0" by (intro distinct_ids_unique)
  with r r0 show "\<exists>r. getOrderById oid s = Some r \<and> status (deref s r) = Pending" by simp
qed

text \<open>The two transitions share their shape; \<open>m\<close> is the method of the order, \<open>st\<close> its target.\<close>

lemma mark_effect:
  assumes m: "\<And>ord. status ord = Pending \<Longrightarrow> m ord = ord\<lparr>status := st\<rparr>"
    and r: "status (deref s r) = Pending"
  shows "status (deref (saveOrders (call m r s)) r) = st
    \<and> orders (saveOrders (call m r s)) = orders s
    \<and> (\<forall>r'. r' \<noteq> r \<longrightarrow> deref (saveOrders (call m r s)) r' = deref s r')
    \<and> (currentUserPhone s \<noteq> [] \<and> \<not> quotaExceeded s \<longrightarrow>
         localStorage (saveOrders (call m r s)) (getStorageKey s)
           = Some (JSON_stringify (map toJSON (listed (saveOrders (call m r s))))))"
proof -
  have "currentUserPhone s \<noteq> [] \<and> \<not> quotaExceeded s \<longrightarrow>
         localStorage (saveOrders (call m r s)) (getStorageKey s)
           = Some (JSON_stringify (map toJSON (listed (saveOrders (call m r s)))))"
    using saveOrders_persisted[of "call m r s"] by (simp add: call_frame listed_saveOrders)
  then show ?thesis
    using m[OF r] by (simp add: deref_call saveOrders_frame call_frame)
qed

lemma markOrderAsPicked_hit:
  "getOrderById oid s = Some r \<Longrightarrow> status (deref s r) = Pending \<Longrightarrow>
   markOrderAsPicked oid s = (True, saveOrders (call markAsPicked r s))"
  by (simp add: markOrderAsPicked_def isPending_def)

lemma markOrderAsPicked_miss:
  "\<not> (\<exists>r. getOrderById oid s = Some r \<and> status (deref s r) = Pending) \<Longrightarrow>
   markOrderAsPicked oid s = (False, s)"
  by (auto simp: markOrderAsPicked_def isPending_def split: option.splits)

lemma markOrderAsExpired_hit:
  "getOrderById oid s = Some r \<Longrightarrow> status (deref s r) = Pending \<Longrightarrow>
   markOrderAsExpired oid s = (True, saveOrders (call markAsExpired r s))"
  by (simp add: markOrderAsExpired_def isPending_def)

lemma markOrderAsExpired_miss:
  "\<not> (\<exists>r. getOrderById oid s = Some r \<and> status (deref s r) = Pending) \<Longrightarrow>
   markOrderAsExpired oid s = (False, s)"
  by (auto simp: markOrderAsExpired_def isPending_def split: option.splits)

text \<open>
  C2 (as the claim states it, refuted). After creating an order, marking it picked and
  creating a second order with the same id, a pending order with that id exists, yet
  both transitions report failure: the lookup stops at the first order with the id.
\<close>

theorem mark_any_pending_counterexample:
  "orders picked_then_pending = [0, 1]
   \<and> order_id (deref picked_then_pending 1) = ''A1''
   \<and> status (deref picked_then_pending 1) = Pending
   \<and> \<not> fst (markOrderAsPicked ''A1'' picked_then_pending)
   \<and> \<not> fst (markOrderAsExpired ''A1'' picked_then_pending)"
  by code_simp

text \<open>
  C2 (amended). \<^verbatim>\<open>markOrderAsPicked(id)\<close> and \<^verbatim>\<open>markOrderAsExpired(id)\<close> return success
  exactly when \<^verbatim>\<open>getOrderById(id)\<close> finds an order (the first with that id) and that order
  is pending. Then the status of that order becomes picked (expired), no other order
  and no position changes, and the persist step runs: with a user bound and the write
  accepted, the user's slot holds the serialised collection. Otherwise the result is
  failure and the state is unchanged. Nothing is thrown. While ids are distinct, the
  condition is that some order with that id is pending.
\<close>

theorem mark_first_match:
  "(fst (markOrderAsPicked oid s)
      \<longleftrightarrow> (\<exists>r. getOrderById oid s = Some r \<and> status (deref s r) = Pending))
   \<and> (fst (markOrderAsExpired oid s)
      \<longleftrightarrow> (\<exists>r. getOrderById oid s = Some r \<and> status (deref s r) = Pending))
   \<and> (getOrderById oid s = Some r \<and> status (deref s r) = Pending \<longrightarrow>
        (let s' = snd (markOrderAsPicked oid s) in
           status (deref s' r) = Picked
         \<and> orders s' = orders s
         \<and> (\<forall>r'. r' \<noteq> r \<longrightarrow> deref s' r' = deref s r')
         \<and> (currentUserPhone s \<noteq> [] \<and> \<not> quotaExceeded s \<longrightarrow>
              localStorage s' (getStorageKey s) = Some (JSON_stringify (map toJSON (listed s')))))
      \<and> (let s' = snd (markOrderAsExpired oid s) in
           status (deref s' r) = Expired
         \<and> orders s' = orders s
         \<and> (\<forall>r'. r' \<noteq> r \<longrightarrow> deref s' r' = deref s r')
         \<and> (currentUserPhone s \<noteq> [] \<and> \<not> quotaExceeded s \<longrightarrow>
              localStorage s' (getStorageKey s) = Some (JSON_stringify (map toJSON (listed s'))))))
   \<and> (\<not> fst (markOrderAsPicked oid s) \<longrightarrow> snd (markOrderAsPicked oid s) = s)
   \<and> (\<not> fst (markOrderAsExpired oid s) \<longrightarrow> snd (markOrderAsExpired oid s) = s)
   \<and> (distinct_ids s \<longrightarrow>
        ((\<exists>r. getOrderById oid s = Some r \<and> status (deref s r) = Pending)
          \<longleftrightarrow> (\<exists>r\<in>set (orders s). order_id (deref s r) = oid \<and> status (deref s r) = Pending)))"
proof -
  let ?hit = "\<exists>r. getOrderById oid s = Some r \<and> status (deref s r) = Pending"
  have p: "fst (markOrderAsPicked oid s) \<longleftrightarrow> ?hit"
    using markOrderAsPicked_hit[of oid s] markOrderAsPicked_miss[of oid s]
    by (cases ?hit) auto
  have e: "fst (markOrderAsExpired oid s) \<longleftrightarrow> ?hit"
    using markOrderAsExpired_hit[of oid s] markOrderAsExpired_miss[of oid s]
    by (cases ?hit) auto
  have pm: "\<not> fst (markOrderAsPicked oid s) \<longrightarrow> snd (markOrderAsPicked oid s) = s"
    using p markOrderAsPicked_miss[of oid s] by auto
  have em: "\<not> fst (markOrderAsExpired oid s) \<longrightarrow> snd (markOrderAsExpired oid s) = s"
    using e markOrderAsExpired_miss[of oid s] by auto
  have ph: "let s' = snd (markOrderAsPicked oid s) in
           status (deref s' r) = Picked
         \<and> orders s' = orders s
         \<and> (\<forall>r'. r' \<noteq> r \<longrightarrow> deref s' r' = deref s r')
         \<and> (currentUserPhone s \<noteq> [] \<and> \<not> quotaExceeded s \<longrightarrow>
              localStorage s' (getStorageKey s) = Some (JSON_stringify (map toJSON (listed s'))))"
    if "getOrderById oid s = Some r" "status (deref s r) = Pending"
    using mark_effect[of markAsPicked Picked s r] that
    by (simp add: markOrderAsPicked_hit markAsPicked_def)
  have eh: "let s' = snd (markOrderAsExpired oid s) in
           status (deref s' r) = Expired
         \<and> orders s' = orders s
         \<and> (\<forall>r'. r' \<noteq> r \<longrightarrow> deref s' r' = deref s r')
         \<and> (currentUserPhone s \<noteq> [] \<and> \<not> quotaExceeded s \<longrightarrow>
              localStorage s' (getStorageKey s) = Some (JSON_stringify (map toJSON (listed s'))))"
    if "getOrderById oid s = Some r" "status (deref s r) = Pending"
    using mark_effect[of markAsExpired Expired s r] that
    by (simp add: markOrderAsExpired_hit markAsExpired_def)
  have d: "distinct_ids s \<longrightarrow>
        (?hit \<longleftrightarrow> (\<exists>r\<in>set (orders s). order_id (deref s r) = oid \<and> status (deref s r) = Pending))"
    using first_pending_iff[of s oid] by blast
  show ?thesis
    apply (intro conjI)
         apply (rule p)
        apply (rule e)
       apply (intro impI conjI)
        apply (erule conjE, erule (1) ph)
       apply (erule conjE, erule (1) eh)
      apply (rule pm)
     apply (rule em)
    apply (rule d)
    done
qed

theorem mark_first_match_witness:
  "getOrderById ''A1'' one_order = Some 0 \<and> status (deref one_order 0) = Pending
   \<and> distinct_ids one_order \<and> currentUserPhone one_order \<noteq> [] \<and> \<not> quotaExceeded one_order
   \<and> fst (markOrderAsPicked ''A1'' one_order)
   \<and> status (deref (snd (markOrderAsPicked ''A1'' one_order)) 0) = Picked
   \<and> status (deref (snd (markOrderAsExpired ''A1'' one_order)) 0) = Expired
   \<and> localStorage (snd (markOrderAsPicked ''A1'' one_order)) (getStorageKey one_order)
       = Some (JSON_stringify (map toJSON (listed (snd (markOrderAsPicked ''A1'' one_order)))))
   \<and> \<not> fst (markOrderAsPicked ''A1'' picked_then_pending)
   \<and> snd (markOrderAsPicked ''A1'' picked_then_pending) = picked_then_pending
   \<and> \<not> fst (markOrderAsExpired ''B2'' one_order)
   \<and> snd (markOrderAsExpired ''B2'' one_order) = one_order"
proof -
  have a: "getOrderById ''A1'' one_order = Some 0" "status (deref one_order 0) = Pending"
    "distinct_ids one_order" "currentUserPhone one_order \<noteq> []" "\<not> quotaExceeded one_order"
    by code_simp+
  have b: "\<not> fst (markOrderAsPicked ''A1'' picked_then_pending)"
    "\<not> fst (markOrderAsExpired ''B2'' one_order)"
    by code_simp+
  show ?thesis
    using a b mark_first_match [of "''A1''" one_order 0]
      mark_first_match [of "''A1''" picked_then_pending 0]
      mark_first_match [of "''B2''" one_order 0]
    by (simp add: Let_def)
qed

section \<open>Deletion\<close>

lemma orderExists_iff:
  "orderExists oid s \<longleftrightarrow> (\<exists>r\<in>set (orders s). order_id (deref s r) = oid)"
  by (simp add: orderExists_def list_ex_iff)

lemma deleteOrder_miss: "\<not> orderExists oid s \<Longrightarrow> deleteOrder oid s = (False, s)"
  by (simp add: deleteOrder_def Let_def findIndex_none orderExists_iff)

lemma deleteOrder_hit:
  assumes "orderExists oid s"
  shows "\<exists>ys r zs. orders s = ys @ r # zs \<and> order_id (deref s r) = oid
          \<and> (\<forall>y\<in>set ys. order_id (deref s y) \<noteq> oid)
          \<and> deleteOrder oid s = (True, saveOrders (s\<lparr>orders := ys @ zs\<rparr>))"
proof -
  let ?P = "\<lambda>r. order_id (deref s r) = oid"
  from assms have ne: "findIndex ?P (orders s) \<noteq> - 1"
    by (simp add: findIndex_none orderExists_iff)
  from findIndex_first[OF ne] obtain ys r zs where
    h: "orders s = ys @ r # zs" "?P r" "\<forall>y\<in>set ys. \<not> ?P y"
      "findIndex ?P (orders s) = int (length ys)" by blast
  have "splice (findIndex ?P (orders s)) 1 (orders s) = ys @ zs"
    unfolding h(4) unfolding h(1) by (rule splice_at)
  with ne have "deleteOrder oid s = (True, saveOrders (s\<lparr>orders := ys @ zs\<rparr>))"
    by (simp add: deleteOrder_def Let_def)
  with h show ?thesis by blast
qed

lemma find_append_none: "\<forall>y\<in>set ys. \<not> P y \<Longrightarrow> find P (ys @ zs) = find P zs"
  by (induction ys) auto

text \<open>
  C6 (as the claim states it, refuted). With two orders created under the same id,
  \<^verbatim>\<open>deleteOrder(id)\<close> succeeds and \<^verbatim>\<open>getOrderById(id)\<close> still finds an order afterwards.
\<close>

theorem delete_then_find_counterexample:
  "orderExists ''A1'' same_id_twice
   \<and> fst (deleteOrder ''A1'' same_id_twice)
   \<and> getOrderById ''A1'' (snd (deleteOrder ''A1'' same_id_twice)) = Some 1"
  by code_simp

text \<open>
  C6 (amended). If an order with the id is in the collection, \<^verbatim>\<open>deleteOrder(id)\<close> removes
  the first such order and nothing else, keeps the other orders in their order, runs the
  persist step (with a user bound and the write accepted, the user's slot holds the
  serialised collection) and returns success; \<^verbatim>\<open>getOrderById(id)\<close> afterwards finds the
  next order with that id, hence none while ids are distinct. If no order has the id,
  the result is failure and the state is unchanged.
\<close>

theorem deleteOrder_first_match:
  "(orderExists oid s \<longrightarrow>
      (\<exists>ys r zs. orders s = ys @ r # zs \<and> order_id (deref s r) = oid
         \<and> (\<forall>y\<in>set ys. order_id (deref s y) \<noteq> oid)
         \<and> deleteOrder oid s = (True, saveOrders (s\<lparr>orders := ys @ zs\<rparr>))
         \<and> orders (snd (deleteOrder oid s)) = ys @ zs
         \<and> getOrderById oid (snd (deleteOrder oid s))
             = find (\<lambda>r. order_id (deref s r) = oid) zs)
      \<and> deref (snd (deleteOrder oid s)) = deref s
      \<and> (currentUserPhone s \<noteq> [] \<and> \<not> quotaExceeded s \<longrightarrow>
           localStorage (snd (deleteOrder oid s)) (getStorageKey s)
             = Some (JSON_stringify (map toJSON (listed (snd (deleteOrder oid s))))))
      \<and> (distinct_ids s \<longrightarrow> getOrderById oid (snd (deleteOrder oid s)) = None))
   \<and> (\<not> orderExists oid s \<longrightarrow> deleteOrder oid s = (False, s))"
proof -
  have hit: "(\<exists>ys r zs. orders s = ys @ r # zs \<and> order_id (deref s r) = oid
         \<and> (\<forall>y\<in>set ys. order_id (deref s y) \<noteq> oid)
         \<and> deleteOrder oid s = (True, saveOrders (s\<lparr>orders := ys @ zs\<rparr>))
         \<and> orders (snd (deleteOrder oid s)) = ys @ zs
         \<and> getOrderById oid (snd (deleteOrder oid s))
             = find (\<lambda>r. order_id (deref s r) = oid) zs)
      \<and> deref (snd (deleteOrder oid s)) = deref s
      \<and> (currentUserPhone s \<noteq> [] \<and> \<not> quotaExceeded s \<longrightarrow>
           localStorage (snd (deleteOrder oid s)) (getStorageKey s)
             = Some (JSON_stringify (map toJSON (listed (snd (deleteOrder oid s))))))
      \<and> (distinct_ids s \<longrightarrow> getOrderById oid (snd (deleteOrder oid s)) = None)"
    if ex: "orderExists oid s"
  proof -
    let ?P = "\<lambda>r. order_id (deref s r) = oid"
    from deleteOrder_hit[OF ex] obtain ys r zs where
      h: "orders s = ys @ r # zs" "?P r" "\<forall>y\<in>set ys. \<not> ?P y"
        "deleteOrder oid s = (True, saveOrders (s\<lparr>orders := ys @ zs\<rparr>))" by blast
    let ?t = "s\<lparr>orders := ys @ zs\<rparr>"
    have o: "orders (snd (deleteOrder oid s)) = ys @ zs"
      by (simp add: h(4) saveOrders_frame)
    have d: "deref (snd (deleteOrder oid s)) = deref s"
      by (simp add: h(4))
    have g: "getOrderById oid (snd (deleteOrder oid s)) = find ?P zs"
      using h(3) by (simp add: getOrderById_def o d find_append_none)
    have p: "currentUserPhone s \<noteq> [] \<and> \<not> quotaExceeded s \<longrightarrow>
           localStorage (snd (deleteOrder oid s)) (getStorageKey s)
             = Some (JSON_stringify (map toJSON (listed (snd (deleteOrder oid s)))))"
      using saveOrders_persisted[of ?t] by (simp add: h(4) listed_saveOrders)
    have n: "getOrderById oid (snd (deleteOrder oid s)) = None" if "distinct_ids s"
    proof -
      let ?f = "\<lambda>r. order_id (deref s r)"
      from that have "distinct (map ?f ys @ ?f r # map ?f zs)"
        by (simp add: distinct_ids_def ids_def h(1))
      then have "oid \<notin> set (map (\<lambda>r. order_id (deref s r)) zs)"
        using h(2) by auto
      then have "\<forall>z\<in>set zs. \<not> ?P z" by auto
      then show ?thesis by (simp add: g find_None_iff)
    qed
    from h o g d p n show ?thesis by blast
  qed
  show ?thesis
    using hit deleteOrder_miss[of oid s] by blast
qed

theorem deleteOrder_first_match_witness:
  "orderExists ''A1'' one_order \<and> distinct_ids one_order
   \<and> currentUserPhone one_order \<noteq> [] \<and> \<not> quotaExceeded one_order
   \<and> fst (deleteOrder ''A1'' one_order)
   \<and> orders (snd (deleteOrder ''A1'' one_order)) = []
   \<and> getOrderById ''A1'' (snd (deleteOrder ''A1'' one_order)) = None
   \<and> localStorage (snd (deleteOrder ''A1'' one_order)) (getStorageKey one_order)
       = Some (JSON_stringify (map toJSON (listed (snd (deleteOrder ''A1'' one_order)))))
   \<and> \<not> orderExists ''B2'' one_order
   \<and> deleteOrder ''B2'' one_order = (False, one_order)"
proof -
  have a: "orderExists ''A1'' one_order" "distinct_ids one_order"
    "currentUserPhone one_order \<noteq> []" "\<not> quotaExceeded one_order"
    "\<not> orderExists ''B2'' one_order" "orders one_order = [0]"
    by code_simp+
  show ?thesis
    using a deleteOrder_first_match [of "''A1''" one_order]
      deleteOrder_first_match [of "''B2''" one_order]
    by (auto simp: Cons_eq_append_conv)
qed

section \<open>Insertion order and ids\<close>

lemma alloc_all_heap_new:
  "map (heap (snd (alloc_all os s))) (fst (alloc_all os s)) = map Some os"
proof (induction os arbitrary: s)
  case Nil show ?case by simp
next
  case (Cons a os)
  let ?s1 = "snd (alloc a s)"
  have "heap (snd (alloc_all os ?s1)) (nextRef s) = heap ?s1 (nextRef s)"
    by (rule alloc_all_old) (simp add: alloc_def)
  then have "heap (snd (alloc_all os ?s1)) (nextRef s) = Some a"
    by (simp add: alloc_def)
  then show ?case by (simp add: alloc_all_Cons Cons.IH)
qed

lemma refs_allocated_iff:
  "refs_allocated s \<longleftrightarrow> (\<forall>r\<in>set (orders s). r < nextRef s \<and> heap s r \<noteq> None)"
  by (simp add: refs_allocated_def list_all_iff)

lemma refs_allocated_loadOrders: "refs_allocated (loadOrders s)"
proof -
  have "refs_allocated ((snd (alloc_all os s))\<lparr>orders := fst (alloc_all os s)\<rparr>)" for os
  proof -
    have "r < nextRef (snd (alloc_all os s)) \<and> heap (snd (alloc_all os s)) r \<noteq> None"
      if "r \<in> set (fst (alloc_all os s))" for r
    proof -
      from that have "r < nextRef (snd (alloc_all os s))"
        by (simp add: alloc_all_refs alloc_all_nextRef)
      moreover from that have "heap (snd (alloc_all os s)) r \<in> set (map Some os)"
        unfolding alloc_all_heap_new[symmetric, of os s] by simp
      ultimately show ?thesis by auto
    qed
    then show ?thesis by (simp add: refs_allocated_iff)
  qed
  then show ?thesis
    by (simp add: loadOrders_def getItem_def console_error_def refs_allocated_def
        case_prod_beta split: option.splits sum.splits)
qed

lemma refs_allocated_saveOrders [simp]: "refs_allocated (saveOrders s) = refs_allocated s"
  by (simp add: refs_allocated_def saveOrders_frame)

lemma refs_allocated_call: "refs_allocated s \<Longrightarrow> refs_allocated (call m r s)"
  by (simp add: refs_allocated_iff call_def)

lemma refs_allocated_createOrder:
  "refs_allocated s \<Longrightarrow> refs_allocated (snd (createOrder d s))"
  by (auto simp: snd_createOrder refs_allocated_iff alloc_def saveOrders_frame)

lemma refs_allocated_deleteOrder:
  assumes "refs_allocated s"
  shows "refs_allocated (snd (deleteOrder oid s))"
proof (cases "orderExists oid s")
  case True
  from deleteOrder_hit[OF True] obtain ys r zs where
    "orders s = ys @ r # zs" "deleteOrder oid s = (True, saveOrders (s\<lparr>orders := ys @ zs\<rparr>))"
    by blast
  with assms show ?thesis by (simp add: refs_allocated_iff saveOrders_frame)
next
  case False
  with assms show ?thesis by (simp add: deleteOrder_miss)
qed

lemma refs_allocated_apply_op:
  assumes "refs_allocated s"
  shows "refs_allocated (apply_op x s)"
proof (cases x)
  case (Create d)
  with assms show ?thesis by (simp add: refs_allocated_createOrder)
next
  case (MarkPicked oid)
  then show ?thesis
    using markOrderAsPicked_cases[of oid s] assms by (auto simp: refs_allocated_call)
next
  case (MarkExpired oid)
  then show ?thesis
    using markOrderAsExpired_cases[of oid s] assms by (auto simp: refs_allocated_call)
next
  case (Delete oid)
  with assms show ?thesis by (simp add: refs_allocated_deleteOrder)
next
  case ClearAll
  then show ?thesis
    by (simp add: clearAllOrders_def removeItem_def Let_def refs_allocated_def)
next
  case Refresh
  then show ?thesis by (simp add: refreshOrders_def refs_allocated_loadOrders)
qed

lemma ids_listed: "ids s = map order_id (listed s)"
  by (simp add: ids_def listed_orders)

lemma ids_saveOrders [simp]: "ids (saveOrders s) = ids s"
  by (simp add: ids_def saveOrders_frame)

lemma ids_createOrder:
  "refs_allocated s \<Longrightarrow> ids (snd (createOrder d s)) = ids s @ [data_id d]"
  by (simp add: ids_listed createOrder_listed new_Order_def)

lemma ids_call:
  assumes "\<And>ord. order_id (m ord) = order_id ord"
  shows "ids (call m r s) = ids s"
  using assms by (simp add: ids_def deref_call call_frame)

lemma ids_markOrderAsPicked: "ids (snd (markOrderAsPicked oid s)) = ids s"
  using markOrderAsPicked_cases[of oid s]
  by (auto simp: ids_call markAsPicked_def)

lemma ids_markOrderAsExpired: "ids (snd (markOrderAsExpired oid s)) = ids s"
  using markOrderAsExpired_cases[of oid s]
  by (auto simp: ids_call markAsExpired_def)

lemma ids_deleteOrder: "ids (snd (deleteOrder oid s)) = remove1 oid (ids s)"
proof (cases "orderExists oid s")
  case True
  from deleteOrder_hit[OF True] obtain ys r zs where
    h: "orders s = ys @ r # zs" "order_id (deref s r) = oid"
      "\<forall>y\<in>set ys. order_id (deref s y) \<noteq> oid"
      "deleteOrder oid s = (True, saveOrders (s\<lparr>orders := ys @ zs\<rparr>))"
    by blast
  have "oid \<notin> set (map (\<lambda>r. order_id (deref s r)) ys)"
    using h(3) by auto
  then show ?thesis
    using h(2) by (simp add: h(4)) (simp add: ids_def h(1) remove1_append)
next
  case False
  then have "oid \<notin> set (ids s)"
    by (auto simp: orderExists_iff ids_def)
  with False show ?thesis by (simp add: deleteOrder_miss remove1_idem)
qed

lemma ids_switchUser:
  "ids (switchUser u s) =
     (if u = [] then []
      else case localStorage s (STORAGE_KEY_PREFIX @ u) of
             None \<Rightarrow> []
           | Some (OrdersText js) \<Rightarrow> map json_id js
           | Some (OtherText t) \<Rightarrow> [])"
  by (simp add: ids_listed listed_switchUser fromJSON_def comp_def
      split: option.splits stored.splits)

text \<open>
  C9 (as the claim states it, refuted). From a store without orders, two calls of
  \<^verbatim>\<open>createOrder\<close> with the same data leave two orders with the same id; and loading a
  slot that holds two snapshots with the same id gives two such orders as well.
\<close>

theorem create_same_id_counterexample:
  "distinct_ids (switchUser ''+1555'' empty_store)
   \<and> ids same_id_twice = [''A1'', ''A1'']
   \<and> \<not> distinct_ids same_id_twice
   \<and> ids (switchUser ''+1555'' stored_twice) = [''A1'', ''A1'']"
  by code_simp

text \<open>
  C9 (amended). The collection keeps insertion order: \<^verbatim>\<open>createOrder\<close> appends at the
  end, \<^verbatim>\<open>deleteOrder\<close> removes the first order with the id and keeps the rest in order,
  the transitions move nothing. No operation compares ids: the transitions and
  \<^verbatim>\<open>deleteOrder\<close> keep distinct ids distinct, \<^verbatim>\<open>clearAllOrders\<close> and
  \<^verbatim>\<open>clearUserSession\<close> leave no ids, \<^verbatim>\<open>createOrder\<close> keeps them distinct exactly when
  the id of the new order is not yet in the collection, and \<^verbatim>\<open>switchUser\<close> takes the ids
  as they are persisted. Every reference the service holds stays allocated.
\<close>

theorem ids_by_operation:
  "(refs_allocated s \<longrightarrow>
       orders (snd (createOrder d s)) = orders s @ [fst (createOrder d s)]
     \<and> ids (snd (createOrder d s)) = ids s @ [data_id d]
     \<and> (distinct_ids (snd (createOrder d s)) \<longleftrightarrow> distinct_ids s \<and> data_id d \<notin> set (ids s))
     \<and> refs_allocated (apply_op x s))
   \<and> refs_allocated (switchUser u s)
   \<and> ids (snd (markOrderAsPicked oid s)) = ids s
   \<and> ids (snd (markOrderAsExpired oid s)) = ids s
   \<and> ids (snd (deleteOrder oid s)) = remove1 oid (ids s)
   \<and> ids (clearAllOrders s) = []
   \<and> ids (clearUserSession s) = []
   \<and> ids (switchUser u s) =
       (if u = [] then []
        else case localStorage s (STORAGE_KEY_PREFIX @ u) of
               None \<Rightarrow> []
             | Some (OrdersText js) \<Rightarrow> map json_id js
             | Some (OtherText t) \<Rightarrow> [])
   \<and> (distinct_ids s \<longrightarrow>
         distinct_ids (snd (markOrderAsPicked oid s))
       \<and> distinct_ids (snd (markOrderAsExpired oid s))
       \<and> distinct_ids (snd (deleteOrder oid s)))"
proof -
  have c: "orders (snd (createOrder d s)) = orders s @ [fst (createOrder d s)]
     \<and> ids (snd (createOrder d s)) = ids s @ [data_id d]
     \<and> (distinct_ids (snd (createOrder d s)) \<longleftrightarrow> distinct_ids s \<and> data_id d \<notin> set (ids s))
     \<and> refs_allocated (apply_op x s)" if "refs_allocated s"
    using that
    by (auto simp: createOrder_orders ids_createOrder distinct_ids_def refs_allocated_apply_op)
  have l: "refs_allocated (switchUser u s)"
    by (simp add: switchUser_def refs_allocated_loadOrders)
  have e: "ids (clearAllOrders s) = []" "ids (clearUserSession s) = []"
    by (simp_all add: ids_def clearAllOrders_def clearUserSession_def removeItem_def Let_def)
  have p: "distinct_ids (snd (markOrderAsPicked oid s))
       \<and> distinct_ids (snd (markOrderAsExpired oid s))
       \<and> distinct_ids (snd (deleteOrder oid s))" if "distinct_ids s"
    using that
    by (simp add: distinct_ids_def ids_markOrderAsPicked ids_markOrderAsExpired ids_deleteOrder)
  show ?thesis
    using c l e p
    by (simp add: ids_markOrderAsPicked ids_markOrderAsExpired ids_deleteOrder ids_switchUser)
qed

theorem ids_by_operation_witness:
  "refs_allocated one_order \<and> distinct_ids one_order
   \<and> ids (snd (createOrder roti one_order)) = [''A1'', ''B2'']
   \<and> distinct_ids (snd (createOrder roti one_order))
   \<and> \<not> distinct_ids (snd (createOrder nasi one_order))
   \<and> distinct_ids (snd (markOrderAsPicked ''A1'' one_order))
   \<and> distinct_ids (snd (deleteOrder ''A1'' one_order))"
proof -
  have a: "refs_allocated one_order" "distinct_ids one_order" "ids one_order = [''A1'']"
    by code_simp+
  show ?thesis
    using a ids_by_operation [of one_order roti "Create roti" "[]" "''A1''"]
      ids_by_operation [of one_order nasi "Create nasi" "[]" "''A1''"]
    by (simp add: roti_def nasi_def)
qed

section \<open>Total revenue\<close>

lemma sum_from_foldl:
  "foldl (\<lambda>total r. add total (f r)) acc rs = sum_from add acc (map f rs)"
  by (induction rs arbitrary: acc) simp_all

lemma sum_from_snoc: "sum_from add acc (xs @ [x]) = add (sum_from add acc xs) x"
  by (induction xs arbitrary: acc) simp_all

lemma getTotalRevenue_listed:
  "getTotalRevenue add zero s = sum_from add zero (map price (listed s))"
  using sum_from_foldl [of add "\<lambda>r. price (deref s r)" zero "orders s"]
  by (simp add: getTotalRevenue_def listed_orders comp_def)

text \<open>
  C7. After any sequence of calls (create and delete among them) from any state,
  \<^verbatim>\<open>getTotalRevenue()\<close> is the sum of the prices of the orders \<^verbatim>\<open>getAllOrders()\<close>
  returns, and it is 0 when the collection is empty. The sum is the one the arithmetic
  of the program gives when the prices are added from left to right to 0, whatever
  that arithmetic is (binary64 addition is not associative, so another order of
  adding may give another number); creating an order adds its price to the total.
\<close>

theorem getTotalRevenue_sum:
  "getTotalRevenue add zero (run ops s)
     = sum_from add zero (map price (listed (run ops s)))
   \<and> (listed s = [] \<longrightarrow> getTotalRevenue add zero s = zero)
   \<and> (refs_allocated s \<longrightarrow>
        getTotalRevenue add zero (snd (createOrder d s))
          = add (getTotalRevenue add zero s) (data_price d))"
proof -
  have "getTotalRevenue add zero (snd (createOrder d s))
          = add (getTotalRevenue add zero s) (data_price d)" if "refs_allocated s"
    using that
    by (simp add: getTotalRevenue_listed createOrder_listed sum_from_snoc new_Order_def)
  then show ?thesis
    by (simp add: getTotalRevenue_listed)
qed

theorem getTotalRevenue_sum_witness:
  "listed empty_store = [] \<and> getTotalRevenue (+) 0 empty_store = 0
   \<and> refs_allocated one_order
   \<and> listed (run [Create nasi, Create roti] (switchUser ''+1555'' empty_store))
       = [new_Order nasi, new_Order roti]
   \<and> getTotalRevenue (+) 0 (run [Create nasi, Create roti] (switchUser ''+1555'' empty_store))
       = 16.5
   \<and> getTotalRevenue (+) 0 (snd (createOrder roti one_order)) = 16.5
   \<and> getTotalRevenue (\<lambda>a b. min 15 (a + b)) 0
        (run [Create nasi, Create roti] (switchUser ''+1555'' empty_store)) = 15"
proof -
  have a: "listed empty_store = []" "refs_allocated one_order"
    "listed (run [Create nasi, Create roti] (switchUser ''+1555'' empty_store))
       = [new_Order nasi, new_Order roti]"
    "getTotalRevenue (+) 0 one_order = 12.5"
    by code_simp+
  show ?thesis
    using a getTotalRevenue_sum [of "(+)" 0 "[Create nasi, Create roti]"
        "switchUser ''+1555'' empty_store" roti]
      getTotalRevenue_sum [of "(+)" 0 "[]" empty_store roti]
      getTotalRevenue_sum [of "(+)" 0 "[]" one_order roti]
      getTotalRevenue_sum [of "\<lambda>a b. min 15 (a + b)" 0 "[Create nasi, Create roti]"
        "switchUser ''+1555'' empty_store" roti]
    by (simp add: new_Order_def nasi_def roti_def)
qed


section \<open>Sharing of Order objects with callers\<close>

lemma arrays_allocated_assign [simp]: "arrays_allocated (assign_orders xs s)"
  by (simp add: arrays_allocated_def)

lemma arrays_allocated_loadOrders: "arrays_allocated (loadOrders s)"
  by (simp add: loadOrders_def getItem_def case_prod_beta split: option.splits sum.splits)

lemma arrays_allocated_switchUser: "arrays_allocated (switchUser u s)"
  by (simp add: switchUser_def arrays_allocated_loadOrders)

lemma arrays_allocated_getAllOrders:
  "arrays_allocated s \<Longrightarrow> arrays_allocated (snd (getAllOrders s))"
  by (simp add: arrays_allocated_def getAllOrders_fields)

text \<open>
  The model tells a copy from an alias: a write through the identity of the service's
  own array changes the collection.
\<close>

lemma array_write_own: "orders (array_write f (ordersArray s) s) = f (orders s)"
  by (simp add: array_write_def)

lemma array_write_other:
  assumes "a \<noteq> ordersArray s"
  shows "orders (array_write f a s) = orders s"
    and "ordersArray (array_write f a s) = ordersArray s"
    and "heap (array_write f a s) = heap s"
    and "localStorage (array_write f a s) = localStorage s"
    and "currentUserPhone (array_write f a s) = currentUserPhone s"
    and "elems (array_write f a s) a = f (elems s a)"
  using assms by (simp_all add: array_write_def elems_def)

lemma listed_cong:
  "orders t = orders s \<Longrightarrow> heap t = heap s \<Longrightarrow> listed t = listed s"
  by (simp add: listed_orders deref_def cong: map_cong)

text \<open>
  C3 (as the claim states it, refuted). A caller takes the array \<^verbatim>\<open>getAllOrders()\<close>
  returns and calls \<^verbatim>\<open>markAsPicked()\<close> on the order in it: the order inside the store is
  now picked, and the pending orders of the store have changed, without any call to the
  service.
\<close>

theorem returned_order_mutation_counterexample:
  "elems (snd (getAllOrders one_order)) (fst (getAllOrders one_order)) = [0]
   \<and> listed one_order = [new_Order nasi]
   \<and> listed (call markAsPicked 0 (snd (getAllOrders one_order)))
       = [(new_Order nasi)\<lparr>status := Picked\<rparr>]
   \<and> getPendingOrders one_order = [0]
   \<and> getPendingOrders (call markAsPicked 0 (snd (getAllOrders one_order))) = []"
  by code_simp

text \<open>
  C3 (amended). \<^verbatim>\<open>getAllOrders()\<close> returns a new array, not the array of the service,
  holding the store's own \<^verbatim>\<open>Order\<close> objects in collection order, and changes nothing
  in the store. Whatever mutation \<open>f\<close> a caller performs on the returned array changes
  that array only: the collection, its listing, the objects and the persisted data stay
  as they are. When a caller mutates an order \<open>r\<close> of the result by \<open>m\<close>, the store's
  sequence of references and the persisted data stay as they are too, but the store now
  holds the mutated order: its listing and its status queries show it, and the next
  persist step writes it.
\<close>

theorem getAllOrders_shares_objects:
  "(let a = fst (getAllOrders s); s1 = snd (getAllOrders s) in
      elems s1 a = orders s
    \<and> orders s1 = orders s \<and> ordersArray s1 = ordersArray s
    \<and> heap s1 = heap s \<and> localStorage s1 = localStorage s
    \<and> (arrays_allocated s \<longrightarrow>
          a \<noteq> ordersArray s1
        \<and> elems (array_write f a s1) a = f (orders s)
        \<and> orders (array_write f a s1) = orders s
        \<and> listed (array_write f a s1) = listed s
        \<and> heap (array_write f a s1) = heap s
        \<and> localStorage (array_write f a s1) = localStorage s)
    \<and> (r \<in> set (elems s1 a) \<longrightarrow>
          orders (call m r s1) = orders s
        \<and> localStorage (call m r s1) = localStorage s
        \<and> deref (call m r s1) r = m (deref s r)
        \<and> listed (call m r s1)
            = map (\<lambda>x. if x = r then m (deref s r) else deref s x) (orders s)
        \<and> getOrdersByStatus st (call m r s1)
            = filter (\<lambda>x. status (if x = r then m (deref s r) else deref s x) = st) (orders s)
        \<and> (currentUserPhone s \<noteq> [] \<and> \<not> quotaExceeded s \<longrightarrow>
             localStorage (saveOrders (call m r s1)) (getStorageKey s)
               = Some (JSON_stringify (map toJSON (listed (call m r s1)))))))"
proof -
  let ?a = "fst (getAllOrders s)"
  let ?s1 = "snd (getAllOrders s)"
  have el: "elems ?s1 ?a = orders s"
    by (rule elems_getAllOrders)
  have fr: "orders ?s1 = orders s" "ordersArray ?s1 = ordersArray s"
    "heap ?s1 = heap s" "localStorage ?s1 = localStorage s"
    by (simp_all add: getAllOrders_fields)
  note copy = el fr
  have seq: "?a \<noteq> ordersArray ?s1
        \<and> elems (array_write f ?a ?s1) ?a = f (orders s)
        \<and> orders (array_write f ?a ?s1) = orders s
        \<and> listed (array_write f ?a ?s1) = listed s
        \<and> heap (array_write f ?a ?s1) = heap s
        \<and> localStorage (array_write f ?a ?s1) = localStorage s" if "arrays_allocated s"
  proof -
    from that have ne: "?a \<noteq> ordersArray ?s1"
      by (simp add: arrays_allocated_def getAllOrders_fields)
    have "listed (array_write f ?a ?s1) = listed s"
      by (rule listed_cong) (simp_all add: array_write_other [OF ne] copy)
    with ne show ?thesis
      by (simp add: array_write_other [OF ne] copy)
  qed
  have key: "getStorageKey (call m r ?s1) = getStorageKey s"
    by (simp add: getStorageKey_def call_frame getAllOrders_fields)
  have obj: "orders (call m r ?s1) = orders s
        \<and> localStorage (call m r ?s1) = localStorage s
        \<and> deref (call m r ?s1) r = m (deref s r)
        \<and> listed (call m r ?s1)
            = map (\<lambda>x. if x = r then m (deref s r) else deref s x) (orders s)
        \<and> getOrdersByStatus st (call m r ?s1)
            = filter (\<lambda>x. status (if x = r then m (deref s r) else deref s x) = st) (orders s)
        \<and> (currentUserPhone s \<noteq> [] \<and> \<not> quotaExceeded s \<longrightarrow>
             localStorage (saveOrders (call m r ?s1)) (getStorageKey s)
               = Some (JSON_stringify (map toJSON (listed (call m r ?s1)))))"
    using saveOrders_persisted [of "call m r ?s1"] key
    by (simp add: listed_orders call_frame deref_call getOrdersByStatus_def copy
        getAllOrders_fields cong: if_cong)
  from copy seq obj show ?thesis
    unfolding Let_def by blast
qed

theorem getAllOrders_shares_objects_witness:
  "arrays_allocated one_order
   \<and> 0 \<in> set (elems (snd (getAllOrders one_order)) (fst (getAllOrders one_order)))
   \<and> currentUserPhone one_order \<noteq> [] \<and> \<not> quotaExceeded one_order
   \<and> fst (getAllOrders one_order) \<noteq> ordersArray (snd (getAllOrders one_order))
   \<and> elems (array_write (\<lambda>xs. xs @ [7]) (fst (getAllOrders one_order))
        (snd (getAllOrders one_order))) (fst (getAllOrders one_order)) = [0, 7]
   \<and> orders (array_write (\<lambda>xs. xs @ [7]) (fst (getAllOrders one_order))
        (snd (getAllOrders one_order))) = [0]
   \<and> orders (array_write (\<lambda>xs. []) (fst (getAllOrders one_order))
        (snd (getAllOrders one_order))) = [0]
   \<and> orders (call markAsPicked 0 (snd (getAllOrders one_order))) = [0]
   \<and> localStorage (call markAsPicked 0 (snd (getAllOrders one_order))) = localStorage one_order
   \<and> status (deref (call markAsPicked 0 (snd (getAllOrders one_order))) 0) = Picked
   \<and> getOrdersByStatus Pending (call markAsPicked 0 (snd (getAllOrders one_order))) = []
   \<and> localStorage (saveOrders (call markAsPicked 0 (snd (getAllOrders one_order))))
        (getStorageKey one_order)
       = Some (JSON_stringify [toJSON ((new_Order nasi)\<lparr>status := Picked\<rparr>)])"
proof -
  have a: "arrays_allocated one_order" "orders one_order = [0]"
    "deref one_order 0 = new_Order nasi"
    "currentUserPhone one_order \<noteq> []" "\<not> quotaExceeded one_order"
    by code_simp+
  show ?thesis
    using a getAllOrders_shares_objects [of one_order "\<lambda>xs. xs @ [7]" 0 markAsPicked Pending]
      getAllOrders_shares_objects [of one_order "\<lambda>xs. []" 0 markAsPicked Pending]
    by (simp add: Let_def markAsPicked_def new_Order_def)
qed


section \<open>Session isolation\<close>

text \<open>
  Objects the service no longer holds: a set \<open>R\<close> of allocated references, none of them
  in the collection, is left alone by every call.
\<close>

lemma loadOrders_heap_old: "r < nextRef s \<Longrightarrow> heap (loadOrders s) r = heap s r"
  by (simp add: loadOrders_def getItem_def console_error_def case_prod_beta alloc_all_old
      split: option.splits sum.splits)

lemma loadOrders_nextRef: "nextRef s \<le> nextRef (loadOrders s)"
  by (simp add: loadOrders_def getItem_def console_error_def case_prod_beta alloc_all_nextRef
      split: option.splits sum.splits)

lemma loadOrders_fresh: "r \<in> set (orders (loadOrders s)) \<Longrightarrow> nextRef s \<le> r"
  by (auto simp: loadOrders_def getItem_def console_error_def case_prod_beta alloc_all_refs
      split: option.splits sum.splits if_splits)

lemma loadOrders_released:
  assumes "\<forall>r\<in>R. r < nextRef s"
  shows "(\<forall>r\<in>R. r < nextRef (loadOrders s) \<and> r \<notin> set (orders (loadOrders s)))
       \<and> (\<forall>r\<in>R. heap (loadOrders s) r = heap s r)"
proof (intro conjI ballI)
  fix r assume r: "r \<in> R"
  with assms have lt: "r < nextRef s" by blast
  show "r < nextRef (loadOrders s)"
    using lt loadOrders_nextRef[of s] by simp
  show "r \<notin> set (orders (loadOrders s))"
    using lt loadOrders_fresh[of r s] by auto
  show "heap (loadOrders s) r = heap s r"
    using lt by (rule loadOrders_heap_old)
qed

lemma heap_call_released:
  assumes "\<forall>r\<in>R. r < nextRef s \<and> r \<notin> set (orders s)" "r \<in> set (orders s)" "r' \<in> R"
  shows "heap (call m r s) r' = heap s r'"
proof -
  from assms have "r' \<noteq> r" by blast
  then show ?thesis by (simp add: call_def)
qed

lemma markOrderAsPicked_cases_in:
  "markOrderAsPicked oid s = (False, s) \<or>
   (\<exists>r\<in>set (orders s). markOrderAsPicked oid s = (True, saveOrders (call markAsPicked r s)))"
  using getOrderById_SomeD[of oid s]
  by (auto simp: markOrderAsPicked_def split: option.splits)

lemma markOrderAsExpired_cases_in:
  "markOrderAsExpired oid s = (False, s) \<or>
   (\<exists>r\<in>set (orders s). markOrderAsExpired oid s = (True, saveOrders (call markAsExpired r s)))"
  using getOrderById_SomeD[of oid s]
  by (auto simp: markOrderAsExpired_def split: option.splits)

lemma deleteOrder_cases_sub:
  "deleteOrder oid s = (False, s) \<or>
   (\<exists>rs. set rs \<subseteq> set (orders s) \<and> deleteOrder oid s = (True, saveOrders (s\<lparr>orders := rs\<rparr>)))"
proof (cases "orderExists oid s")
  case True
  from deleteOrder_hit[OF True] obtain ys r zs where
    h: "orders s = ys @ r # zs" "deleteOrder oid s = (True, saveOrders (s\<lparr>orders := ys @ zs\<rparr>))"
    by blast
  have "set (ys @ zs) \<subseteq> set (orders s)" by (auto simp: h(1))
  with h(2) show ?thesis by blast
next
  case False
  then show ?thesis by (simp add: deleteOrder_miss)
qed

lemma apply_op_released:
  assumes R: "\<forall>r\<in>R. r < nextRef s \<and> r \<notin> set (orders s)"
  shows "(\<forall>r\<in>R. r < nextRef (apply_op x s) \<and> r \<notin> set (orders (apply_op x s)))
       \<and> (\<forall>r\<in>R. heap (apply_op x s) r = heap s r)"
proof (cases x)
  case (Create d)
  then show ?thesis using R
    by (auto simp: snd_createOrder saveOrders_frame alloc_def)
next
  case (MarkPicked oid)
  then show ?thesis
    using markOrderAsPicked_cases_in[of oid s] R
    by (auto simp: saveOrders_frame call_frame heap_call_released[OF R])
next
  case (MarkExpired oid)
  then show ?thesis
    using markOrderAsExpired_cases_in[of oid s] R
    by (auto simp: saveOrders_frame call_frame heap_call_released[OF R])
next
  case (Delete oid)
  then show ?thesis
    using deleteOrder_cases_sub[of oid s] R
    by (auto simp: saveOrders_frame)
next
  case ClearAll
  then show ?thesis using R
    by (simp add: clearAllOrders_def removeItem_def Let_def)
next
  case Refresh
  have "\<forall>r\<in>R. r < nextRef s" using R by blast
  from loadOrders_released[OF this] Refresh show ?thesis
    by (simp add: refreshOrders_def)
qed

lemma run_released:
  "\<forall>r\<in>R. r < nextRef s \<and> r \<notin> set (orders s) \<Longrightarrow> \<forall>r\<in>R. heap (run ops s) r = heap s r"
proof (induction ops arbitrary: s)
  case Nil
  show ?case by simp
next
  case (Cons x ops)
  from apply_op_released[OF Cons.prems, of x]
  have a: "\<forall>r\<in>R. r < nextRef (apply_op x s) \<and> r \<notin> set (orders (apply_op x s))"
    and b: "\<forall>r\<in>R. heap (apply_op x s) r = heap s r" by blast+
  from Cons.IH[OF a] b show ?case by simp
qed

text \<open>
  An array in the hands of a caller: its identity \<open>a\<close> was allocated and is not the
  identity of the service's array. No call of the service changes its elements.
\<close>

lemma alloc_all_arrays:
  "arrays (snd (alloc_all os s)) = arrays s"
  "nextArray (snd (alloc_all os s)) = nextArray s"
  "ordersArray (snd (alloc_all os s)) = ordersArray s"
  by (induction os arbitrary: s; simp add: alloc_all_Cons alloc_def)+

lemma saveOrders_arrays:
  "arrays (saveOrders s) = arrays s"
  "nextArray (saveOrders s) = nextArray s"
  "ordersArray (saveOrders s) = ordersArray s"
  by (simp_all add: saveOrders_def console_error_def setItem_def Let_def)

lemma call_arrays:
  "arrays (call m r s) = arrays s"
  "nextArray (call m r s) = nextArray s"
  "ordersArray (call m r s) = ordersArray s"
  by (simp_all add: call_def)

lemma assign_orders_held:
  assumes "a < nextArray s \<and> a \<noteq> ordersArray s"
  shows "(a < nextArray (assign_orders xs s) \<and> a \<noteq> ordersArray (assign_orders xs s))
       \<and> arrays (assign_orders xs s) a = arrays s a"
  using assms by (simp add: assign_orders_def)

lemma loadOrders_held:
  assumes "a < nextArray s \<and> a \<noteq> ordersArray s"
  shows "(a < nextArray (loadOrders s) \<and> a \<noteq> ordersArray (loadOrders s))
       \<and> arrays (loadOrders s) a = arrays s a"
proof -
  have 1: "a < nextArray (console_error msg s) \<and> a \<noteq> ordersArray (console_error msg s)"
    "arrays (console_error msg s) = arrays s" for msg
    using assms by (simp_all add: console_error_def)
  have 2: "a < nextArray (snd (alloc_all os s)) \<and> a \<noteq> ordersArray (snd (alloc_all os s))" for os
    using assms by (simp add: alloc_all_arrays)
  show ?thesis
    using assign_orders_held [OF assms] assign_orders_held [OF 1(1)] assign_orders_held [OF 2]
    by (simp add: loadOrders_def getItem_def case_prod_beta 1(2) alloc_all_arrays
        split: option.splits sum.splits)
qed

lemma apply_op_held:
  assumes "a < nextArray s \<and> a \<noteq> ordersArray s"
  shows "(a < nextArray (apply_op x s) \<and> a \<noteq> ordersArray (apply_op x s))
       \<and> arrays (apply_op x s) a = arrays s a"
proof (cases x)
  case (Create d)
  then show ?thesis using assms
    by (simp add: snd_createOrder saveOrders_arrays alloc_def)
next
  case (MarkPicked oid)
  then show ?thesis
    using markOrderAsPicked_cases [of oid s] assms
    by (auto simp: saveOrders_arrays call_arrays)
next
  case (MarkExpired oid)
  then show ?thesis
    using markOrderAsExpired_cases [of oid s] assms
    by (auto simp: saveOrders_arrays call_arrays)
next
  case (Delete oid)
  then show ?thesis
    using deleteOrder_cases [of oid s] assms
    by (auto simp: saveOrders_arrays)
next
  case ClearAll
  then show ?thesis
    using assign_orders_held [OF assms, of "[]"]
    by (simp add: clearAllOrders_def removeItem_def Let_def)
next
  case Refresh
  then show ?thesis
    using loadOrders_held [OF assms] by (simp add: refreshOrders_def)
qed

lemma run_held:
  "a < nextArray s \<and> a \<noteq> ordersArray s \<Longrightarrow>
   a \<noteq> ordersArray (run ops s) \<and> arrays (run ops s) a = arrays s a"
proof (induction ops arbitrary: s)
  case Nil
  then show ?case by simp
next
  case (Cons x ops)
  from apply_op_held [OF Cons.prems, of x]
  have a: "a < nextArray (apply_op x s) \<and> a \<noteq> ordersArray (apply_op x s)"
    and b: "arrays (apply_op x s) a = arrays s a" by blast+
  from Cons.IH [OF a] b show ?case by simp
qed

lemma released_after_rebinding:
  "(let s1 = switchUser A s; a = fst (getAllOrders s1);
        s2 = run ops (switchUser B (snd (getAllOrders s1)))
    in elems s2 a = orders s1 \<and> map (deref s2) (elems s2 a) = listed s1)"
proof -
  let ?s1 = "switchUser A s"
  let ?a = "fst (getAllOrders ?s1)"
  let ?c = "snd (getAllOrders ?s1)"
  let ?R = "set (orders ?s1)"
  let ?b = "switchUser B ?c"
  let ?s2 = "run ops ?b"
  have al: "\<forall>r\<in>?R. r < nextRef ?s1"
    using refs_allocated_loadOrders [of "s\<lparr>currentUserPhone := A\<rparr>"]
    by (simp add: switchUser_def refs_allocated_iff)
  then have al': "\<forall>r\<in>?R. r < nextRef (?c\<lparr>currentUserPhone := B\<rparr>)"
    by (simp add: getAllOrders_fields)
  from loadOrders_released [OF al']
  have b1: "\<forall>r\<in>?R. r < nextRef ?b \<and> r \<notin> set (orders ?b)"
    and b2: "\<forall>r\<in>?R. heap ?b r = heap ?s1 r"
    by (simp_all add: switchUser_def [of B] getAllOrders_fields)
  from run_released [OF b1, of ops] b2
  have "\<forall>r\<in>?R. heap ?s2 r = heap ?s1 r" by simp
  then have objs: "\<forall>r\<in>?R. deref ?s2 r = deref ?s1 r"
    by (simp add: deref_def)
  have "arrays_allocated ?s1" by (rule arrays_allocated_switchUser)
  then have h0: "?a < nextArray (?c\<lparr>currentUserPhone := B\<rparr>)
      \<and> ?a \<noteq> ordersArray (?c\<lparr>currentUserPhone := B\<rparr>)"
    by (simp add: arrays_allocated_def getAllOrders_fields)
  from loadOrders_held [OF h0]
  have h1: "?a < nextArray ?b \<and> ?a \<noteq> ordersArray ?b"
    and h2: "arrays ?b ?a = Some (orders ?s1)"
    by (simp_all add: switchUser_def [of B] getAllOrders_fields)
  from run_held [OF h1, of ops] h2
  have arr: "elems ?s2 ?a = orders ?s1"
    by (simp add: elems_def)
  from objs arr have "map (deref ?s2) (elems ?s2 ?a) = listed ?s1"
    by (simp add: listed_orders)
  with arr show ?thesis
    unfolding Let_def by blast
qed

text \<open>
  C1. The persistence key is the fixed prefix followed by the active user's identifier,
  so two distinct users have distinct keys. After \<^verbatim>\<open>switchUser(A)\<close> and \<^verbatim>\<open>switchUser(B)\<close>,
  no sequence of calls made while \<open>B\<close> is bound touches the slot of \<open>A\<close>; binding \<open>A\<close>
  again lists the same orders as before; and the array a caller obtained from
  \<^verbatim>\<open>getAllOrders()\<close> under \<open>A\<close> still holds the same orders, unchanged.
\<close>

theorem session_isolation:
  assumes "A \<noteq> B"
  shows "getStorageKey (switchUser A s) = ''goodbite_orders_'' @ A
    \<and> getStorageKey (switchUser A s) \<noteq> getStorageKey (switchUser B t)
    \<and> localStorage (run ops (switchUser B (switchUser A s))) (getStorageKey (switchUser A s))
        = localStorage s (getStorageKey (switchUser A s))
    \<and> listed (switchUser A (run ops (switchUser B (switchUser A s)))) = listed (switchUser A s)
    \<and> (let s1 = switchUser A s; a = fst (getAllOrders s1);
            s2 = run ops (switchUser B (snd (getAllOrders s1)))
        in elems s2 a = orders s1 \<and> map (deref s2) (elems s2 a) = listed s1)"
proof -
  let ?k = "STORAGE_KEY_PREFIX @ A"
  let ?b = "switchUser B (switchUser A s)"
  have key: "getStorageKey (switchUser A s) = ''goodbite_orders_'' @ A"
    by (simp add: getStorageKey_def switchUser_frame STORAGE_KEY_PREFIX_def)
  have k: "getStorageKey (switchUser A s) = ?k"
    by (simp add: getStorageKey_def switchUser_frame)
  have ne: "getStorageKey (switchUser A s) \<noteq> getStorageKey (switchUser B t)"
    using assms by (simp add: getStorageKey_inj switchUser_frame)
  have "?k \<noteq> getStorageKey ?b"
    using assms by (simp add: getStorageKey_def switchUser_frame)
  then have "localStorage (run ops ?b) ?k = localStorage ?b ?k"
    by (rule run_other_key)
  also have "\<dots> = localStorage s ?k"
    by (simp add: switchUser_frame)
  finally have slot: "localStorage (run ops ?b) ?k = localStorage s ?k" .
  then have again: "listed (switchUser A (run ops ?b)) = listed (switchUser A s)"
    by (simp add: listed_switchUser)
  from key ne slot again released_after_rebinding [of A s ops B] show ?thesis
    unfolding k by blast
qed

theorem session_isolation_witness:
  "''+1555'' \<noteq> ''+1777''
   \<and> listed (switchUser ''+1555''
         (run [Create roti, Delete ''A1'', ClearAll]
           (switchUser ''+1777''
             (switchUser ''+1555''
               (run [Create nasi, Create roti] (switchUser ''+1555'' empty_store))))))
     = [new_Order nasi, new_Order roti]"
  using session_isolation [of "''+1555''" "''+1777''"
      "run [Create nasi, Create roti] (switchUser ''+1555'' empty_store)"
      "run [Create nasi, Create roti] (switchUser ''+1555'' empty_store)"
      "[Create roti, Delete ''A1'', ClearAll]"]
  apply simp
  apply code_simp
  done

end
